theory Spec2Isabelle
  imports Main "HOL-Library.Sublist"
begin

section \<open>Desktop entry files: the parser, the autostart decision, the Exec entry points\<close>

text \<open>
  A shallow embedding of \<^verbatim>\<open>desktop/desktopentry/desktopentry.go\<close>.
  A Go \<^verbatim>\<open>string\<close> is a sequence of bytes; it is modelled as \<^typ>\<open>string\<close>, a list of
  8-bit characters. A slice that the code compares with \<^verbatim>\<open>nil\<close> is an
  \<^typ>\<open>string list option\<close> (\<open>None\<close> is \<^verbatim>\<open>nil\<close>); a slice that is only ranged over
  is a plain list, since ranging over \<^verbatim>\<open>nil\<close> and over an empty slice is the same.
\<close>

subsection \<open>The functions of Go's \<^verbatim>\<open>strings\<close> package that the code calls\<close>

definition HasPrefix :: "string \<Rightarrow> string \<Rightarrow> bool" where
  "HasPrefix s p = (length p \<le> length s \<and> take (length p) s = p)"

definition HasSuffix :: "string \<Rightarrow> string \<Rightarrow> bool" where
  "HasSuffix s p = (length p \<le> length s \<and> drop (length s - length p) s = p)"

text \<open>
  \<^verbatim>\<open>strings.TrimSpace\<close> removes leading and trailing runes for which
  \<^verbatim>\<open>unicode.IsSpace\<close> holds. These are the UTF-8 encodings of those runes: the six
  ASCII ones, U+0085, U+00A0, U+1680, U+2000 to U+200A, U+2028, U+2029, U+202F, U+205F
  and U+3000. A rune decoded at the start (or the end) of a string is one of them exactly
  when the string starts (ends) with its encoding.
\<close>

definition spaceRunes :: "string list" where
  "spaceRunes =
    [[CHR 0x09], [CHR 0x0A], [CHR 0x0B], [CHR 0x0C], [CHR 0x0D], [CHR 0x20],
     [CHR 0xC2, CHR 0x85], [CHR 0xC2, CHR 0xA0],
     [CHR 0xE1, CHR 0x9A, CHR 0x80],
     [CHR 0xE2, CHR 0x80, CHR 0x80], [CHR 0xE2, CHR 0x80, CHR 0x81],
     [CHR 0xE2, CHR 0x80, CHR 0x82], [CHR 0xE2, CHR 0x80, CHR 0x83],
     [CHR 0xE2, CHR 0x80, CHR 0x84], [CHR 0xE2, CHR 0x80, CHR 0x85],
     [CHR 0xE2, CHR 0x80, CHR 0x86], [CHR 0xE2, CHR 0x80, CHR 0x87],
     [CHR 0xE2, CHR 0x80, CHR 0x88], [CHR 0xE2, CHR 0x80, CHR 0x89],
     [CHR 0xE2, CHR 0x80, CHR 0x8A],
     [CHR 0xE2, CHR 0x80, CHR 0xA8], [CHR 0xE2, CHR 0x80, CHR 0xA9],
     [CHR 0xE2, CHR 0x80, CHR 0xAF],
     [CHR 0xE2, CHR 0x81, CHR 0x9F],
     [CHR 0xE3, CHR 0x80, CHR 0x80]]"

definition leadingSpace :: "string \<Rightarrow> nat" where
  \<comment> \<open>the width in bytes of the white-space rune the string starts with, 0 if none\<close>
  "leadingSpace s = (case find (HasPrefix s) spaceRunes of None \<Rightarrow> 0 | Some p \<Rightarrow> length p)"

definition trailingSpace :: "string \<Rightarrow> nat" where
  "trailingSpace s = (case find (HasSuffix s) spaceRunes of None \<Rightarrow> 0 | Some p \<Rightarrow> length p)"

lemma leadingSpace_le: "leadingSpace s \<le> length s"
  by (auto simp: leadingSpace_def HasPrefix_def find_Some_iff split: option.splits)

lemma trailingSpace_le: "trailingSpace s \<le> length s"
  by (auto simp: trailingSpace_def HasSuffix_def find_Some_iff split: option.splits)

function TrimLeftSpace :: "string \<Rightarrow> string" where
  "TrimLeftSpace s =
    (if leadingSpace s = 0 then s else TrimLeftSpace (drop (leadingSpace s) s))"
  by pat_completeness auto
termination
proof (relation "measure length")
  fix s :: string
  assume "leadingSpace s \<noteq> 0"
  moreover have "leadingSpace s \<le> length s" by (rule leadingSpace_le)
  ultimately show "(drop (leadingSpace s) s, s) \<in> measure length" by simp
qed simp

function TrimRightSpace :: "string \<Rightarrow> string" where
  "TrimRightSpace s =
    (if trailingSpace s = 0 then s
     else TrimRightSpace (take (length s - trailingSpace s) s))"
  by pat_completeness auto
termination
proof (relation "measure length")
  fix s :: string
  assume "trailingSpace s \<noteq> 0"
  moreover have "trailingSpace s \<le> length s" by (rule trailingSpace_le)
  ultimately show "(take (length s - trailingSpace s) s, s) \<in> measure length" by simp
qed simp

declare TrimLeftSpace.simps [simp del] TrimRightSpace.simps [simp del]

definition TrimSpace :: "string \<Rightarrow> string" where
  "TrimSpace s = TrimRightSpace (TrimLeftSpace s)"

text \<open>
  \<^verbatim>\<open>strings.TrimRight\<close> and \<^verbatim>\<open>strings.TrimLeft\<close> with a cutset of ASCII characters
  work byte by byte.
\<close>

definition TrimRight :: "string \<Rightarrow> string \<Rightarrow> string" where
  "TrimRight s cutset = rev (dropWhile (\<lambda>c. c \<in> set cutset) (rev s))"

definition TrimLeft :: "string \<Rightarrow> string \<Rightarrow> string" where
  "TrimLeft s cutset = dropWhile (\<lambda>c. c \<in> set cutset) s"

definition cutset :: string where
  \<comment> \<open>the literal \<^verbatim>\<open>"\t\n\v\f\r "\<close>\<close>
  "cutset = [CHR 0x09, CHR 0x0A, CHR 0x0B, CHR 0x0C, CHR 0x0D, CHR 0x20]"

definition SplitN2 :: "string \<Rightarrow> char \<Rightarrow> string list" where
  \<comment> \<open>\<^verbatim>\<open>strings.SplitN(s, sep, 2)\<close> for a separator of one byte: cut at its first occurrence\<close>
  "SplitN2 s sep =
    (if sep \<in> set s
     then [takeWhile (\<lambda>c. c \<noteq> sep) s, tl (dropWhile (\<lambda>c. c \<noteq> sep) s)]
     else [s])"

text \<open>
  \<^verbatim>\<open>strings.FieldsFunc\<close>: one pass with the start of the current field, if any
  (\<^verbatim>\<open>start >= 0\<close>); here the field read so far stands for its start index. The
  separator of the code is the ASCII byte \<^verbatim>\<open>;\<close>, which is never part of a longer
  UTF-8 sequence, so the pass over runes is a pass over bytes. The result is made with
  \<^verbatim>\<open>make([]string, len(spans))\<close>: it is never \<^verbatim>\<open>nil\<close>.
\<close>

fun fieldsLoop :: "(char \<Rightarrow> bool) \<Rightarrow> string option \<Rightarrow> string \<Rightarrow> string list" where
  "fieldsLoop f None [] = []"
| "fieldsLoop f (Some w) [] = [w]"
| "fieldsLoop f start (c # cs) =
    (if f c then
       (case start of
          Some w \<Rightarrow> w # fieldsLoop f None cs
        | None \<Rightarrow> fieldsLoop f None cs)
     else
       (case start of
          None \<Rightarrow> fieldsLoop f (Some [c]) cs
        | Some w \<Rightarrow> fieldsLoop f (Some (w @ [c])) cs))"

definition FieldsFunc :: "string \<Rightarrow> (char \<Rightarrow> bool) \<Rightarrow> string list" where
  "FieldsFunc s f = fieldsLoop f None s"

text \<open>
  \<^verbatim>\<open>bufio.Scanner\<close> with its default split function \<^verbatim>\<open>ScanLines\<close> and its default
  buffer limit \<^verbatim>\<open>MaxScanTokenSize = 64 * 1024\<close>. Lines end at \<^verbatim>\<open>\n\<close>, one trailing
  \<^verbatim>\<open>\r\<close> is dropped, a last line without \<^verbatim>\<open>\n\<close> is delivered if it is not empty. The
  first argument of \<open>scanFrom\<close> is the part of the current line read so far, which the
  scanner holds in its buffer. When that part fills the buffer (it reaches
  \<^verbatim>\<open>MaxScanTokenSize\<close> bytes with no \<^verbatim>\<open>\n\<close> among them) the scanner sets
  \<^verbatim>\<open>ErrTooLong\<close> and \<^verbatim>\<open>Scan\<close> returns false: no further line is delivered. So a line
  is delivered when it has at most 65535 bytes before its \<^verbatim>\<open>\n\<close> and every earlier
  line was delivered. \<open>scanLines stream\<close> is the sequence of \<^verbatim>\<open>scanner.Text()\<close> values
  for a reader that hands over the bytes \<open>stream\<close> and then reports the end of the input
  by a read of its own, as \<^verbatim>\<open>os.File\<close> (the reader of \<^verbatim>\<open>Load\<close>) does; a reader that
  fails after these bytes gives the same sequence.
\<close>

definition MaxScanTokenSize :: nat where
  "MaxScanTokenSize = 64 * 1024"

definition dropCR :: "string \<Rightarrow> string" where
  "dropCR s = (if s \<noteq> [] \<and> last s = CHR 0x0D then butlast s else s)"

fun scanFrom :: "string \<Rightarrow> string \<Rightarrow> string list" where
  "scanFrom cur [] = (if cur = [] then [] else [dropCR cur])"
| "scanFrom cur (c # cs) =
    (if c = CHR 0x0A then dropCR cur # scanFrom [] cs
     else if MaxScanTokenSize \<le> length cur + 1 then []
     else scanFrom (cur @ [c]) cs)"

definition scanLines :: "string \<Rightarrow> string list" where
  "scanLines stream = scanFrom [] stream"

subsection \<open>The data model\<close>

record Action =
  Name :: string
  Icon :: string
  Exec :: string

text \<open>
  \<^verbatim>\<open>Actions map[string]*Action\<close>: \<open>None\<close> is the \<^verbatim>\<open>nil\<close> map. A key that is absent
  and a key that holds a \<^verbatim>\<open>nil\<close> pointer both read as \<^verbatim>\<open>nil\<close> in Go, and both are
  \<open>None\<close> under the key here.
\<close>

record DesktopEntry =
  Filename :: string
  Name :: string
  Icon :: string
  Exec :: string
  Hidden :: bool
  OnlyShowIn :: "string list option"
  NotShownIn :: "string list option"
  GnomeAutostartEnabled :: bool
  Actions :: "(string \<rightharpoonup> Action) option"

datatype groupState = unknownGroup | desktopEntryGroup | desktopActionGroup

datatype error =
    ErrMultipleDesktopEntry string
      \<comment> \<open>desktop file (filename) has multiple [Desktop Entry] groups\<close>
  | ErrUnknownAction string string
      \<comment> \<open>desktop file (filename) contains unknown action (action)\<close>
  | ErrMultipleActionGroups string string
      \<comment> \<open>desktop file (filename) has multiple (line) groups\<close>
  | ErrBadlyFormed string
      \<comment> \<open>desktop file (filename) badly formed\<close>
  | ErrNoExec string
      \<comment> \<open>desktop file (filename) has no Exec line\<close>
  | ErrNoAction string string
      \<comment> \<open>desktop file (filename) does not have action (action)\<close>
  | ErrActionNoExec string string
      \<comment> \<open>desktop file (filename) action (action) has no Exec line\<close>
  | ErrExpand string
      \<comment> \<open>an error of the expansion routine\<close>
  | Panic
      \<comment> \<open>a run-time panic: a nil pointer dereference or a slice out of range\<close>

definition actionAt :: "DesktopEntry \<Rightarrow> string \<Rightarrow> Action option" where
  \<comment> \<open>\<^verbatim>\<open>de.Actions[action]\<close>; reading a nil map gives nil\<close>
  "actionAt d action = (case Actions d of None \<Rightarrow> None | Some m \<Rightarrow> m action)"

subsection \<open>Helpers\<close>

definition splitStringList :: "string \<Rightarrow> string list" where
  "splitStringList v = FieldsFunc v (\<lambda>r. r = CHR '';'')"

text \<open>
  Modelled from the spec: \<^verbatim>\<open>strutil.ListContains\<close> is imported from another package
  and is not among the sources; the spec calls it a generic "does list contain string"
  utility. It is modelled as the linear search for an equal element.
\<close>

fun ListContains :: "string list \<Rightarrow> string \<Rightarrow> bool" where
  "ListContains [] str = False"
| "ListContains (elem # list) str = (if elem = str then True else ListContains list str)"

fun isOneOfIn :: "string list \<Rightarrow> string list \<Rightarrow> bool" where
  "isOneOfIn [] other = False"
| "isOneOfIn (one # rest) other =
    (if ListContains other one then True else isOneOfIn rest other)"

subsection \<open>The autostart decision\<close>

definition ShouldAutostart :: "DesktopEntry \<Rightarrow> string list \<Rightarrow> bool" where
  "ShouldAutostart de currentDesktop =
    (if Hidden de then False
     else if \<not> GnomeAutostartEnabled de \<and> ListContains currentDesktop ''GNOME'' then False
     else if (case OnlyShowIn de of
                None \<Rightarrow> False
              | Some only \<Rightarrow> \<not> isOneOfIn currentDesktop only) then False
     else if (case NotShownIn de of
                None \<Rightarrow> False
              | Some notIn \<Rightarrow> isOneOfIn currentDesktop notIn) then False
     else True)"

subsection \<open>The entry points of the Exec expansion\<close>

text \<open>
  The expansion routine \<^verbatim>\<open>expandExec(de, exec, uris)\<close> lives in another file of the
  package, which is not among the sources. The two methods that call it take it as the
  parameter \<open>expandExec\<close>.
\<close>

definition ExpandExec ::
  "(DesktopEntry \<Rightarrow> string \<Rightarrow> string list \<Rightarrow> error + string list) \<Rightarrow>
   DesktopEntry \<Rightarrow> string list \<Rightarrow> error + string list" where
  "ExpandExec expandExec de uris =
    (if Exec de = [] then Inl (ErrNoExec (Filename de))
     else expandExec de (Exec de) uris)"

definition ExpandActionExec ::
  "(DesktopEntry \<Rightarrow> string \<Rightarrow> string list \<Rightarrow> error + string list) \<Rightarrow>
   DesktopEntry \<Rightarrow> string \<Rightarrow> string list \<Rightarrow> error + string list" where
  "ExpandActionExec expandExec de action uris =
    (case actionAt de action of
       None \<Rightarrow> Inl (ErrNoAction (Filename de) action)
     | Some a \<Rightarrow>
         if Action.Exec a = [] then Inl (ErrActionNoExec (Filename de) action)
         else expandExec de (Action.Exec a) uris)"

subsection \<open>The parser\<close>

text \<open>
  The local variables of \<^verbatim>\<open>parse\<close>. \<open>currentAction\<close> is a pointer to the
  \<^verbatim>\<open>Action\<close> that the header branch has just stored in \<^verbatim>\<open>de.Actions\<close>; it is
  represented by the key it was stored under, and a write through it is a write to the
  map's entry (no entry of the map is ever removed or replaced). A write through a nil
  \<open>currentAction\<close> would be a panic; \<open>parse_no_panic\<close> below shows that none happens.
\<close>

record parseState =
  de :: DesktopEntry
  currentGroup :: groupState
  seenDesktopEntryGroup :: bool
  actions :: "string list"
  currentAction :: "string option"

definition initialState :: "string \<Rightarrow> parseState" where
  "initialState filename =
    \<lparr>de = \<lparr>Filename = filename, Name = [], Icon = [], Exec = [], Hidden = False,
            OnlyShowIn = None, NotShownIn = None, GnomeAutostartEnabled = True,
            Actions = None\<rparr>,
     currentGroup = unknownGroup,
     seenDesktopEntryGroup = False,
     actions = [],
     currentAction = None\<rparr>"

definition slice :: "string \<Rightarrow> nat \<Rightarrow> nat \<Rightarrow> string option" where
  \<comment> \<open>\<^verbatim>\<open>s[lo:hi]\<close>, which panics unless \<^verbatim>\<open>lo <= hi <= len(s)\<close>\<close>
  "slice s lo hi = (if lo \<le> hi \<and> hi \<le> length s then Some (take (hi - lo) (drop lo s)) else None)"

definition startAction :: "string \<Rightarrow> string \<Rightarrow> parseState \<Rightarrow> error + parseState" where
  \<comment> \<open>the body of the branch for a \<^verbatim>\<open>[Desktop Action ...]\<close> header\<close>
  "startAction filename line st =
    (if length line = 0 then Inl Panic
     else
      (case slice line (length ''[Desktop Action '') (length line - 1) of
         None \<Rightarrow> Inl Panic
       | Some action \<Rightarrow>
           if \<not> ListContains (actions st) action then
             Inl (ErrUnknownAction filename action)
           else if actionAt (de st) action \<noteq> None then
             Inl (ErrMultipleActionGroups filename line)
           else
             Inr (st\<lparr>currentGroup := desktopActionGroup,
                     de := (de st)\<lparr>Actions :=
                       Some ((case Actions (de st) of None \<Rightarrow> Map.empty | Some m \<Rightarrow> m)
                              (action \<mapsto> \<lparr>Action.Name = [], Icon = [], Exec = []\<rparr>))\<rparr>,
                     currentAction := Some action\<rparr>)))"

definition startGroup :: "string \<Rightarrow> string \<Rightarrow> parseState \<Rightarrow> error + parseState" where
  \<comment> \<open>the branch \<^verbatim>\<open>if strings.HasPrefix(line, "[")\<close>\<close>
  "startGroup filename line st =
    (if line = ''[Desktop Entry]'' then
       (if seenDesktopEntryGroup st then Inl (ErrMultipleDesktopEntry filename)
        else Inr (st\<lparr>seenDesktopEntryGroup := True, currentGroup := desktopEntryGroup\<rparr>))
     else if HasPrefix line ''[Desktop Action '' \<and> HasSuffix line '']'' then
       startAction filename line st
     else Inr (st\<lparr>currentGroup := unknownGroup\<rparr>))"

definition entryKey :: "string \<Rightarrow> string \<Rightarrow> parseState \<Rightarrow> parseState" where
  \<comment> \<open>\<^verbatim>\<open>case desktopEntryGroup: switch key\<close>\<close>
  "entryKey key val st =
    (if key = ''Name'' then st\<lparr>de := (de st)\<lparr>Name := val\<rparr>\<rparr>
     else if key = ''Icon'' then st\<lparr>de := (de st)\<lparr>Icon := val\<rparr>\<rparr>
     else if key = ''Exec'' then st\<lparr>de := (de st)\<lparr>Exec := val\<rparr>\<rparr>
     else if key = ''Hidden'' then st\<lparr>de := (de st)\<lparr>Hidden := (val = ''true'')\<rparr>\<rparr>
     else if key = ''OnlyShowIn'' then
       st\<lparr>de := (de st)\<lparr>OnlyShowIn := Some (splitStringList val)\<rparr>\<rparr>
     else if key = ''NotShownIn'' then
       st\<lparr>de := (de st)\<lparr>NotShownIn := Some (splitStringList val)\<rparr>\<rparr>
     else if key = ''X-GNOME-Autostart-enabled'' then
       st\<lparr>de := (de st)\<lparr>GnomeAutostartEnabled := (val = ''true'')\<rparr>\<rparr>
     else if key = ''Actions'' then st\<lparr>actions := splitStringList val\<rparr>
     else st)"

definition writeAction :: "(Action \<Rightarrow> Action) \<Rightarrow> parseState \<Rightarrow> error + parseState" where
  \<comment> \<open>an assignment to a field of \<^verbatim>\<open>*currentAction\<close>\<close>
  "writeAction f st =
    (case currentAction st of
       None \<Rightarrow> Inl Panic
     | Some k \<Rightarrow>
        (case Actions (de st) of
           None \<Rightarrow> Inl Panic
         | Some m \<Rightarrow>
            (case m k of
               None \<Rightarrow> Inl Panic
             | Some a \<Rightarrow> Inr (st\<lparr>de := (de st)\<lparr>Actions := Some (m(k \<mapsto> f a))\<rparr>\<rparr>))))"

definition actionKey :: "string \<Rightarrow> string \<Rightarrow> parseState \<Rightarrow> error + parseState" where
  \<comment> \<open>\<^verbatim>\<open>case desktopActionGroup: switch key\<close>\<close>
  "actionKey key val st =
    (if key = ''Name'' then writeAction (\<lambda>a. a\<lparr>Action.Name := val\<rparr>) st
     else if key = ''Icon'' then writeAction (\<lambda>a. a\<lparr>Action.Icon := val\<rparr>) st
     else if key = ''Exec'' then writeAction (\<lambda>a. a\<lparr>Action.Exec := val\<rparr>) st
     else Inr st)"

definition keyOf :: "string \<Rightarrow> string" where
  \<comment> \<open>\<^verbatim>\<open>strings.TrimRight(split[0], "\t\n\v\f\r ")\<close>\<close>
  "keyOf line = TrimRight (hd (SplitN2 line CHR ''='')) cutset"

definition valueOf :: "string \<Rightarrow> string" where
  \<comment> \<open>\<^verbatim>\<open>strings.TrimLeft(split[1], "\t\n\v\f\r ")\<close>, read only when the split has two parts\<close>
  "valueOf line = TrimLeft (SplitN2 line CHR ''='' ! 1) cutset"

definition parseLine :: "string \<Rightarrow> string \<Rightarrow> parseState \<Rightarrow> error + parseState" where
  \<comment> \<open>one turn of the loop \<^verbatim>\<open>for scanner.Scan()\<close>, on \<^verbatim>\<open>scanner.Text()\<close>\<close>
  "parseLine filename text st =
    (let line = TrimSpace text in
     if line = [] \<or> HasPrefix line ''#'' then Inr st
     else if HasPrefix line ''['' then startGroup filename line st
     else if length (SplitN2 line CHR ''='') \<noteq> 2 then Inl (ErrBadlyFormed filename)
     else
       (case currentGroup st of
          desktopEntryGroup \<Rightarrow> Inr (entryKey (keyOf line) (valueOf line) st)
        | desktopActionGroup \<Rightarrow> actionKey (keyOf line) (valueOf line) st
        | unknownGroup \<Rightarrow> Inr st))"

fun parseLoop :: "string \<Rightarrow> string list \<Rightarrow> parseState \<Rightarrow> error + parseState" where
  "parseLoop filename [] st = Inr st"
| "parseLoop filename (text # rest) st =
    (case parseLine filename text st of
       Inl err \<Rightarrow> Inl err
     | Inr st' \<Rightarrow> parseLoop filename rest st')"

definition parse :: "string \<Rightarrow> string list \<Rightarrow> error + DesktopEntry" where
  \<comment> \<open>the body of \<^verbatim>\<open>parse(filename, r)\<close>, on the lines the scanner delivers from \<^verbatim>\<open>r\<close>\<close>
  "parse filename lines =
    (case parseLoop filename lines (initialState filename) of
       Inl err \<Rightarrow> Inl err
     | Inr st \<Rightarrow> Inr (de st))"

text \<open>
  \<^verbatim>\<open>parse(filename, r)\<close> on a reader that hands over the bytes \<open>stream\<close>. The loop ends
  when \<^verbatim>\<open>scanner.Scan()\<close> returns false, and \<^verbatim>\<open>scanner.Err()\<close> is never read: the
  function returns the entry built from the delivered lines, whether the scanner reached
  the end of the input or stopped at a line that does not fit its buffer.
\<close>

definition parseReader :: "string \<Rightarrow> string \<Rightarrow> error + DesktopEntry" where
  "parseReader filename stream = parse filename (scanLines stream)"

section \<open>Notions of the specification\<close>

text \<open>
  The definitions of this section follow the words of the specification, not the code;
  the theorems compare the code with them.
\<close>

text \<open>
  The naive split on a separator, which keeps the empty fields between consecutive
  separators and before a leading or after a trailing one.
\<close>

fun naiveSplit :: "char \<Rightarrow> string \<Rightarrow> string list" where
  "naiveSplit sep [] = [[]]"
| "naiveSplit sep (c # cs) =
    (if c = sep then [] # naiveSplit sep cs
     else (case naiveSplit sep cs of
             [] \<Rightarrow> [[c]]
           | w # ws \<Rightarrow> (c # w) # ws))"

text \<open>
  The lines of an input stream: the byte sequences between the \<^verbatim>\<open>\n\<close> bytes, with a
  last line that has no \<^verbatim>\<open>\n\<close> if it is not empty. Nothing is dropped and no length is
  limited.
\<close>

fun rawFrom :: "string \<Rightarrow> string \<Rightarrow> string list" where
  "rawFrom cur [] = (if cur = [] then [] else [cur])"
| "rawFrom cur (c # cs) =
    (if c = CHR 0x0A then cur # rawFrom [] cs else rawFrom (cur @ [c]) cs)"

definition rawLines :: "string \<Rightarrow> string list" where
  "rawLines stream = rawFrom [] stream"

text \<open>The keys of \<^verbatim>\<open>e.Actions\<close>; a nil map has none.\<close>

definition actionKeys :: "DesktopEntry \<Rightarrow> string set" where
  "actionKeys d = (case Actions d of None \<Rightarrow> {} | Some m \<Rightarrow> dom m)"

text \<open>
  The lines of the [Desktop Entry] group: the trimmed lines, other than blank lines,
  comments and group headers, that follow a \<open>[Desktop Entry]\<close> header before the next
  header. The flag tells whether the last header seen was \<open>[Desktop Entry]\<close>.
\<close>

fun entryGroupBody :: "bool \<Rightarrow> string list \<Rightarrow> string list" where
  "entryGroupBody inEntry [] = []"
| "entryGroupBody inEntry (text # rest) =
    (let line = TrimSpace text in
     if line = [] \<or> HasPrefix line ''#'' then entryGroupBody inEntry rest
     else if HasPrefix line ''['' then entryGroupBody (line = ''[Desktop Entry]'') rest
     else if inEntry then line # entryGroupBody inEntry rest
     else entryGroupBody inEntry rest)"

text \<open>
  The value of the last line with the given key, read as the parser reads keys and values
  (\<open>keyOf\<close> and \<open>valueOf\<close>), if there is one.
\<close>

fun lastValue :: "string \<Rightarrow> string list \<Rightarrow> string option" where
  "lastValue key [] = None"
| "lastValue key (line # rest) =
    (case lastValue key rest of
       Some v \<Rightarrow> Some v
     | None \<Rightarrow> if keyOf line = key then Some (valueOf line) else None)"

text \<open>The actions that the \<open>Actions\<close> key of the [Desktop Entry] group declares.\<close>

definition declaredActions :: "string list \<Rightarrow> string list" where
  "declaredActions ls =
    (case lastValue ''Actions'' (entryGroupBody False ls) of
       None \<Rightarrow> [] | Some v \<Rightarrow> splitStringList v)"

section \<open>The autostart decision\<close>

lemma ListContains_set: "ListContains list str \<longleftrightarrow> str \<in> set list"
  by (induction list) auto

lemma isOneOfIn_set: "isOneOfIn xs other \<longleftrightarrow> (\<exists>x\<in>set xs. x \<in> set other)"
  by (induction xs) (auto simp: ListContains_set)

text \<open>
  Claim C1. For every entry and every list \<open>currentDesktop\<close>, \<open>ShouldAutostart\<close> is false
  if \<open>Hidden\<close> is set; otherwise false if \<open>GnomeAutostartEnabled\<close> is unset and
  \<open>currentDesktop\<close> contains \<open>GNOME\<close>; otherwise false if \<open>OnlyShowIn\<close> is not nil and no
  element of \<open>currentDesktop\<close> occurs in it; otherwise false if \<open>NotShownIn\<close> is not nil
  and some element of \<open>currentDesktop\<close> occurs in it; otherwise true. The rules apply in
  this order, and membership is membership in the set of elements.
\<close>

theorem ShouldAutostart_decision:
  "ShouldAutostart e currentDesktop =
    (if Hidden e then False
     else if \<not> GnomeAutostartEnabled e \<and> ''GNOME'' \<in> set currentDesktop then False
     else if OnlyShowIn e \<noteq> None \<and>
             (\<forall>d\<in>set currentDesktop. d \<notin> set (the (OnlyShowIn e))) then False
     else if NotShownIn e \<noteq> None \<and>
             (\<exists>d\<in>set currentDesktop. d \<in> set (the (NotShownIn e))) then False
     else True)"
  by (cases "OnlyShowIn e"; cases "NotShownIn e")
     (simp_all add: ShouldAutostart_def ListContains_set isOneOfIn_set)

definition entryKDE :: DesktopEntry where
  "entryKDE = \<lparr>Filename = ''a.desktop'', Name = ''a'', Icon = [], Exec = ''a %U'',
      Hidden = False, OnlyShowIn = Some [''GNOME'', ''KDE''], NotShownIn = Some [''XFCE''],
      GnomeAutostartEnabled = False, Actions = None\<rparr>"

theorem ShouldAutostart_decision_witness:
  "ShouldAutostart entryKDE [''KDE''] \<and> \<not> ShouldAutostart entryKDE [''KDE'', ''GNOME'']
   \<and> \<not> ShouldAutostart entryKDE [''LXDE''] \<and> \<not> ShouldAutostart entryKDE [''XFCE'', ''KDE'']"
  using ShouldAutostart_decision [of entryKDE "[''KDE'']"]
    ShouldAutostart_decision [of entryKDE "[''KDE'', ''GNOME'']"]
    ShouldAutostart_decision [of entryKDE "[''LXDE'']"]
    ShouldAutostart_decision [of entryKDE "[''XFCE'', ''KDE'']"]
  by (simp add: entryKDE_def)

section \<open>The entry points of the Exec expansion\<close>

lemma actionAt_None: "actionAt d a = None \<longleftrightarrow> a \<notin> actionKeys d"
  by (auto simp: actionAt_def actionKeys_def split: option.splits)

text \<open>
  Claim C2. \<open>ExpandExec\<close> returns an error when \<open>Exec\<close> is the empty string (and otherwise
  the result of the expansion routine on \<open>Exec\<close>). \<open>ExpandActionExec\<close> returns an error
  when the action name is not a key of \<open>Actions\<close>, returns an error when the action
  exists and its \<open>Exec\<close> is the empty string, and otherwise returns what the same
  expansion routine returns on the action's \<open>Exec\<close>. The routine is any function \<open>X\<close>.
\<close>

theorem Expand_entry_points:
  "(Exec e = [] \<longrightarrow> ExpandExec X e uris = Inl (ErrNoExec (Filename e))) \<and>
   (Exec e \<noteq> [] \<longrightarrow> ExpandExec X e uris = X e (Exec e) uris) \<and>
   (a \<notin> actionKeys e \<longrightarrow> ExpandActionExec X e a uris = Inl (ErrNoAction (Filename e) a)) \<and>
   (\<forall>act. actionAt e a = Some act \<longrightarrow>
      (Action.Exec act = [] \<longrightarrow>
         ExpandActionExec X e a uris = Inl (ErrActionNoExec (Filename e) a)) \<and>
      (Action.Exec act \<noteq> [] \<longrightarrow>
         ExpandActionExec X e a uris = X e (Action.Exec act) uris))"
  by (auto simp: ExpandExec_def ExpandActionExec_def actionAt_None [symmetric])

definition entryWithActions :: DesktopEntry where
  "entryWithActions = \<lparr>Filename = ''b.desktop'', Name = ''b'', Icon = [], Exec = [],
      Hidden = False, OnlyShowIn = None, NotShownIn = None, GnomeAutostartEnabled = True,
      Actions = Some [''run'' \<mapsto> \<lparr>Action.Name = ''Run'', Icon = [], Exec = ''b --run %u''\<rparr>,
                      ''idle'' \<mapsto> \<lparr>Action.Name = ''Idle'', Icon = [], Exec = []\<rparr>]\<rparr>"

definition echoExpand :: "DesktopEntry \<Rightarrow> string \<Rightarrow> string list \<Rightarrow> error + string list" where
  \<comment> \<open>a stand-in for the expansion routine, for the examples only\<close>
  "echoExpand d exec uris = Inr (exec # uris)"

theorem Expand_entry_points_witness:
  "ExpandExec echoExpand entryWithActions [''u''] = Inl (ErrNoExec ''b.desktop'') \<and>
   ExpandExec echoExpand entryKDE [''u''] = Inr [''a %U'', ''u''] \<and>
   ExpandActionExec echoExpand entryWithActions ''stop'' [''u'']
     = Inl (ErrNoAction ''b.desktop'' ''stop'') \<and>
   ExpandActionExec echoExpand entryWithActions ''idle'' [''u'']
     = Inl (ErrActionNoExec ''b.desktop'' ''idle'') \<and>
   ExpandActionExec echoExpand entryWithActions ''run'' [''u''] = Inr [''b --run %u'', ''u'']"
  using Expand_entry_points [of entryWithActions echoExpand "[''u'']" "''stop''"]
    Expand_entry_points [of entryWithActions echoExpand "[''u'']" "''idle''"]
    Expand_entry_points [of entryWithActions echoExpand "[''u'']" "''run''"]
    Expand_entry_points [of entryKDE echoExpand "[''u'']" "''run''"]
  by (simp add: entryWithActions_def entryKDE_def echoExpand_def actionAt_def actionKeys_def)

section \<open>Splitting a list value\<close>

lemma naiveSplit_nonempty: "naiveSplit sep s \<noteq> []"
  by (induction s) (auto split: list.splits)

lemma fieldsLoop_naive:
  "(\<And>w. start = Some w \<Longrightarrow> w \<noteq> []) \<Longrightarrow>
   fieldsLoop (\<lambda>r. r = sep) start s =
     filter (\<lambda>w. w \<noteq> [])
       (((case start of None \<Rightarrow> [] | Some w \<Rightarrow> w) @ hd (naiveSplit sep s))
         # tl (naiveSplit sep s))"
proof (induction s arbitrary: start)
  case Nil
  then show ?case by (cases start) auto
next
  case (Cons c cs)
  show ?case
  proof (cases "c = sep")
    case True
    with Cons.prems Cons.IH [of None] show ?thesis
      by (cases start) (auto simp: naiveSplit_nonempty)
  next
    case False
    obtain w ws where ns: "naiveSplit sep cs = w # ws"
      using naiveSplit_nonempty [of sep cs] by (cases "naiveSplit sep cs") auto
    show ?thesis
    proof (cases start)
      case None
      with False ns Cons.IH [of "Some [c]"] show ?thesis by simp
    next
      case (Some v)
      with False ns Cons.IH [of "Some (v @ [c])"] show ?thesis by simp
    qed
  qed
qed

lemma splitStringList_naive:
  "splitStringList v = filter (\<lambda>w. w \<noteq> []) (naiveSplit CHR '';'' v)"
  using fieldsLoop_naive [of None "CHR '';''" v] naiveSplit_nonempty [of "CHR '';''" v]
  by (cases "naiveSplit CHR '';'' v") (auto simp: splitStringList_def FieldsFunc_def)

lemma naiveSplit_append_sep:
  "naiveSplit sep (u @ sep # v) = naiveSplit sep u @ naiveSplit sep v"
  by (induction u) (auto split: list.splits simp: naiveSplit_nonempty)

lemma splitStringList_sep:
  "splitStringList (u @ CHR '';'' # v) = splitStringList u @ splitStringList v"
  by (simp add: splitStringList_naive naiveSplit_append_sep)

lemma splitStringList_Nil: "splitStringList [] = []"
  by (simp add: splitStringList_def FieldsFunc_def)

text \<open>
  Claim C6. For every value, \<open>splitStringList\<close> splits on \<open>;\<close> and discards all empty
  fields: it is the naive split without its empty fields, so no element of the result
  is empty, and consecutive delimiters, a leading delimiter and a trailing delimiter
  contribute no element. The value \<open>A;;B;\<close> yields exactly the two elements \<open>A\<close> and \<open>B\<close>.
\<close>

theorem splitStringList_discards_empty:
  "splitStringList v = filter (\<lambda>w. w \<noteq> []) (naiveSplit CHR '';'' v) \<and>
   [] \<notin> set (splitStringList v) \<and>
   splitStringList (u @ '';;'' @ v) = splitStringList (u @ '';'' @ v) \<and>
   splitStringList ('';'' @ v) = splitStringList v \<and>
   splitStringList (v @ '';'') = splitStringList v \<and>
   splitStringList ''A;;B;'' = [''A'', ''B'']"
proof -
  have a: "splitStringList v = filter (\<lambda>w. w \<noteq> []) (naiveSplit CHR '';'' v)"
    by (rule splitStringList_naive)
  have b: "[] \<notin> set (splitStringList v)" by (simp add: splitStringList_naive)
  have c: "splitStringList (u @ '';;'' @ v) = splitStringList (u @ '';'' @ v)"
    using splitStringList_sep [of u "CHR '';'' # v"] splitStringList_sep [of "[]" v]
      splitStringList_sep [of u v]
    by (simp add: splitStringList_Nil)
  have d: "splitStringList ('';'' @ v) = splitStringList v"
    using splitStringList_sep [of "[]" v] by (simp add: splitStringList_Nil)
  have e: "splitStringList (v @ '';'') = splitStringList v"
    using splitStringList_sep [of v "[]"] by (simp add: splitStringList_Nil)
  have f: "splitStringList ''A;;B;'' = [''A'', ''B'']"
    by (simp add: splitStringList_def FieldsFunc_def)
  from a b c d e f show ?thesis by blast
qed

theorem splitStringList_discards_empty_witness:
  "splitStringList ''GNOME;;KDE;'' = [''GNOME'', ''KDE''] \<and>
   naiveSplit CHR '';'' ''GNOME;;KDE;'' = [''GNOME'', [], ''KDE'', []] \<and>
   splitStringList '';;'' = []"
  using splitStringList_discards_empty [of "''GNOME;;KDE;''" "[]"]
    splitStringList_discards_empty [of "'';;''" "[]"]
  by simp

section \<open>The scanner\<close>

text \<open>
  The scanner delivers the lines of the stream, each without its trailing \<^verbatim>\<open>\r\<close>, up to
  the first line of \<^verbatim>\<open>MaxScanTokenSize\<close> bytes or more, and nothing from there on.
\<close>

lemma rawFrom_head:
  "cur \<noteq> [] \<or> s \<noteq> [] \<Longrightarrow>
   rawFrom cur s \<noteq> [] \<and> length cur \<le> length (hd (rawFrom cur s))"
proof (induction s arbitrary: cur)
  case Nil
  then show ?case by simp
next
  case (Cons c cs)
  show ?case
  proof (cases "c = CHR 0x0A")
    case True
    then show ?thesis by simp
  next
    case False
    with Cons.IH [of "cur @ [c]"] show ?thesis by simp
  qed
qed

lemma scanFrom_rawFrom:
  "length cur < MaxScanTokenSize \<Longrightarrow>
   scanFrom cur s = map dropCR (takeWhile (\<lambda>l. length l < MaxScanTokenSize) (rawFrom cur s))"
proof (induction s arbitrary: cur)
  case Nil
  then show ?case by simp
next
  case (Cons c cs)
  show ?case
  proof (cases "c = CHR 0x0A")
    case True
    have "0 < MaxScanTokenSize" by (simp add: MaxScanTokenSize_def)
    with True Cons.prems Cons.IH [of "[]"] show ?thesis by simp
  next
    case nl: False
    show ?thesis
    proof (cases "MaxScanTokenSize \<le> length cur + 1")
      case True
      from rawFrom_head [of "cur @ [c]" cs]
      obtain l ls where r: "rawFrom (cur @ [c]) cs = l # ls" and "length cur + 1 \<le> length l"
        by (cases "rawFrom (cur @ [c]) cs") auto
      with True have "\<not> length l < MaxScanTokenSize" by simp
      with r nl True show ?thesis by simp
    next
      case False
      with nl Cons.IH [of "cur @ [c]"] show ?thesis by simp
    qed
  qed
qed

lemma scanLines_rawLines:
  "scanLines stream =
     map dropCR (takeWhile (\<lambda>l. length l < MaxScanTokenSize) (rawLines stream))"
  using scanFrom_rawFrom [of "[]" stream]
  by (simp add: scanLines_def rawLines_def MaxScanTokenSize_def)

lemma length_takeWhile_less:
  "j < length (takeWhile P xs) \<longleftrightarrow> j < length xs \<and> (\<forall>k\<le>j. P (xs ! k))"
proof (induction xs arbitrary: j)
  case Nil
  then show ?case by simp
next
  case (Cons x xs)
  show ?case
  proof (cases "P x")
    case False
    then show ?thesis by auto
  next
    case True
    show ?thesis
    proof (cases j)
      case 0
      with True show ?thesis by simp
    next
      case (Suc m)
      have "(\<forall>k\<le>Suc m. P ((x # xs) ! k)) \<longleftrightarrow> P x \<and> (\<forall>k\<le>m. P (xs ! k))"
        by (auto simp: nth_Cons split: nat.splits)
      with True Suc Cons.IH [of m] show ?thesis by simp
    qed
  qed
qed

lemma delivered_iff:
  "j < length (scanLines stream) \<longleftrightarrow>
     j < length (rawLines stream) \<and>
     (\<forall>k\<le>j. length (rawLines stream ! k) < MaxScanTokenSize)"
  by (simp add: scanLines_rawLines length_takeWhile_less)

lemma delivered_line:
  assumes "j < length (scanLines stream)"
  shows "scanLines stream ! j = dropCR (rawLines stream ! j)"
proof -
  let ?tw = "takeWhile (\<lambda>l. length l < MaxScanTokenSize) (rawLines stream)"
  from assms have j: "j < length ?tw" by (simp add: scanLines_rawLines)
  then have "?tw ! j = rawLines stream ! j" by (rule takeWhile_nth)
  with j show ?thesis by (simp add: scanLines_rawLines)
qed

lemma scanFrom_too_long:
  "CHR 0x0A \<notin> set block \<Longrightarrow> MaxScanTokenSize \<le> length cur + length block \<Longrightarrow>
   length cur < MaxScanTokenSize \<Longrightarrow> scanFrom cur (block @ rest) = []"
proof (induction block arbitrary: cur)
  case Nil
  then show ?case by simp
next
  case (Cons c cs)
  from Cons.prems(1) have nl: "c \<noteq> CHR 0x0A" and rest: "CHR 0x0A \<notin> set cs" by auto
  show ?case
  proof (cases "MaxScanTokenSize \<le> length cur + 1")
    case True
    with nl show ?thesis by simp
  next
    case False
    with nl rest Cons.prems(2) Cons.IH [of "cur @ [c]"] show ?thesis by simp
  qed
qed

lemma scanLines_too_long:
  "CHR 0x0A \<notin> set block \<Longrightarrow> MaxScanTokenSize \<le> length block \<Longrightarrow>
   scanLines (block @ rest) = []"
  using scanFrom_too_long [of block "[]" rest]
  by (simp add: scanLines_def MaxScanTokenSize_def)

text \<open>
  A string that neither starts nor ends with a byte that starts or ends the encoding of
  a white-space rune is not changed by \<open>TrimSpace\<close>.
\<close>

lemma spaceRunes_nonempty: "\<forall>p\<in>set spaceRunes. p \<noteq> []"
  by (simp add: spaceRunes_def)

lemma HasPrefix_hd: "HasPrefix s p \<Longrightarrow> p \<noteq> [] \<Longrightarrow> hd s = hd p"
  by (metis HasPrefix_def hd_take length_greater_0_conv)

lemma HasSuffix_last: "HasSuffix s p \<Longrightarrow> p \<noteq> [] \<Longrightarrow> last s = last p"
proof -
  assume h: "HasSuffix s p" and p: "p \<noteq> []"
  then have d: "drop (length s - length p) s = p" and le: "length p \<le> length s"
    by (simp_all add: HasSuffix_def)
  from p le have "length s - length p < length s" by (cases p) auto
  then have "last (drop (length s - length p) s) = last s" by (rule last_drop)
  with d show ?thesis by simp
qed

lemma TrimSpace_unchanged:
  assumes "\<forall>p\<in>set spaceRunes. hd p \<noteq> hd s" and "\<forall>p\<in>set spaceRunes. last p \<noteq> last s"
  shows "TrimSpace s = s"
proof -
  have "\<not> (\<exists>p\<in>set spaceRunes. HasPrefix s p)"
    using assms(1) spaceRunes_nonempty HasPrefix_hd [of s] by metis
  then have "find (HasPrefix s) spaceRunes = None" by (simp add: find_None_iff)
  then have l: "leadingSpace s = 0" by (simp add: leadingSpace_def)
  have "\<not> (\<exists>p\<in>set spaceRunes. HasSuffix s p)"
    using assms(2) spaceRunes_nonempty HasSuffix_last [of s] by metis
  then have "find (HasSuffix s) spaceRunes = None" by (simp add: find_None_iff)
  then have t: "trailingSpace s = 0" by (simp add: trailingSpace_def)
  from l have "TrimLeftSpace s = s" by (simp add: TrimLeftSpace.simps)
  moreover from t have "TrimRightSpace s = s" by (simp add: TrimRightSpace.simps)
  ultimately show ?thesis by (simp add: TrimSpace_def)
qed

section \<open>The parser, line by line\<close>

definition skipped :: "string \<Rightarrow> bool" where
  "skipped line \<longleftrightarrow> line = [] \<or> HasPrefix line ''#''"

lemma SplitN2_length: "length (SplitN2 s c) \<noteq> 2 \<longleftrightarrow> c \<notin> set s"
  by (simp add: SplitN2_def)

lemma parseLine_skipped: "skipped (TrimSpace l) \<Longrightarrow> parseLine fn l st = Inr st"
  by (auto simp: parseLine_def skipped_def Let_def)

lemma parseLine_header:
  "\<not> skipped (TrimSpace l) \<Longrightarrow> HasPrefix (TrimSpace l) ''['' \<Longrightarrow>
   parseLine fn l st = startGroup fn (TrimSpace l) st"
  by (auto simp: parseLine_def skipped_def Let_def)

lemma parseLine_keyvalue:
  "\<not> skipped (TrimSpace l) \<Longrightarrow> \<not> HasPrefix (TrimSpace l) ''['' \<Longrightarrow>
   parseLine fn l st =
     (if CHR ''='' \<notin> set (TrimSpace l) then Inl (ErrBadlyFormed fn)
      else (case currentGroup st of
              desktopEntryGroup \<Rightarrow> Inr (entryKey (keyOf (TrimSpace l)) (valueOf (TrimSpace l)) st)
            | desktopActionGroup \<Rightarrow> actionKey (keyOf (TrimSpace l)) (valueOf (TrimSpace l)) st
            | unknownGroup \<Rightarrow> Inr st))"
  by (auto simp: parseLine_def skipped_def Let_def SplitN2_length)

definition sameButActions :: "parseState \<Rightarrow> parseState \<Rightarrow> bool" where
  "sameButActions st st1 \<longleftrightarrow>
     actions st1 = actions st \<and> (\<exists>m. de st1 = (de st)\<lparr>Actions := m\<rparr>)"

lemma Actions_update_self: "\<exists>m. (d :: DesktopEntry) = d\<lparr>Actions := m\<rparr>"
  by (rule exI [of _ "Actions d"]) simp

lemma sameButActions_refl: "sameButActions st st"
  by (simp add: sameButActions_def Actions_update_self)

lemma startAction_frame:
  assumes "startAction fn t st = Inr st1"
  shows "currentGroup st1 = desktopActionGroup" and "sameButActions st st1"
    and "seenDesktopEntryGroup st1 = seenDesktopEntryGroup st"
  using assms unfolding startAction_def sameButActions_def
  by (auto split: if_splits option.splits)

lemma startGroup_entry:
  "startGroup fn ''[Desktop Entry]'' st =
     (if seenDesktopEntryGroup st then Inl (ErrMultipleDesktopEntry fn)
      else Inr (st\<lparr>seenDesktopEntryGroup := True, currentGroup := desktopEntryGroup\<rparr>))"
  by (simp add: startGroup_def)

lemma startGroup_other:
  assumes "t \<noteq> ''[Desktop Entry]''" and "startGroup fn t st = Inr st1"
  shows "currentGroup st1 \<noteq> desktopEntryGroup" and "sameButActions st st1"
    and "seenDesktopEntryGroup st1 = seenDesktopEntryGroup st"
proof -
  have "currentGroup st1 \<noteq> desktopEntryGroup \<and> sameButActions st st1
    \<and> seenDesktopEntryGroup st1 = seenDesktopEntryGroup st"
  proof (cases "HasPrefix t ''[Desktop Action '' \<and> HasSuffix t '']''")
    case True
    with assms have "startAction fn t st = Inr st1" by (simp add: startGroup_def)
    from startAction_frame [OF this] show ?thesis by simp
  next
    case False
    with assms have "st1 = st\<lparr>currentGroup := unknownGroup\<rparr>"
      by (auto simp: startGroup_def)
    then show ?thesis by (simp add: sameButActions_def Actions_update_self)
  qed
  then show "currentGroup st1 \<noteq> desktopEntryGroup" and "sameButActions st st1"
    and "seenDesktopEntryGroup st1 = seenDesktopEntryGroup st" by simp_all
qed

lemma startGroup_frame:
  assumes "startGroup fn t st = Inr st1"
  shows "(currentGroup st1 = desktopEntryGroup \<longleftrightarrow> t = ''[Desktop Entry]'')"
    and "sameButActions st st1"
    and "seenDesktopEntryGroup st \<Longrightarrow> seenDesktopEntryGroup st1"
    and "t = ''[Desktop Entry]'' \<Longrightarrow> seenDesktopEntryGroup st1"
proof -
  have "(currentGroup st1 = desktopEntryGroup \<longleftrightarrow> t = ''[Desktop Entry]'')
    \<and> sameButActions st st1
    \<and> (seenDesktopEntryGroup st \<longrightarrow> seenDesktopEntryGroup st1)
    \<and> (t = ''[Desktop Entry]'' \<longrightarrow> seenDesktopEntryGroup st1)"
  proof (cases "t = ''[Desktop Entry]''")
    case True
    with assms have "st1 = st\<lparr>seenDesktopEntryGroup := True, currentGroup := desktopEntryGroup\<rparr>"
      by (auto simp: startGroup_entry split: if_splits)
    with True show ?thesis by (simp add: sameButActions_def Actions_update_self)
  next
    case False
    from startGroup_other [OF False assms] False show ?thesis by simp
  qed
  then show "(currentGroup st1 = desktopEntryGroup \<longleftrightarrow> t = ''[Desktop Entry]'')"
    and "sameButActions st st1"
    and "seenDesktopEntryGroup st \<Longrightarrow> seenDesktopEntryGroup st1"
    and "t = ''[Desktop Entry]'' \<Longrightarrow> seenDesktopEntryGroup st1" by simp_all
qed

lemma writeAction_frame:
  assumes "writeAction f st = Inr st1"
  shows "currentGroup st1 = currentGroup st" and "sameButActions st st1"
    and "seenDesktopEntryGroup st1 = seenDesktopEntryGroup st"
  using assms unfolding writeAction_def sameButActions_def
  by (auto split: option.splits)

lemma actionKey_frame:
  assumes "actionKey k v st = Inr st1"
  shows "currentGroup st1 = currentGroup st" and "sameButActions st st1"
    and "seenDesktopEntryGroup st1 = seenDesktopEntryGroup st"
proof -
  from assms have "st1 = st \<or> (\<exists>f. writeAction f st = Inr st1)"
    by (auto simp: actionKey_def split: if_splits)
  then have "currentGroup st1 = currentGroup st \<and> sameButActions st st1
    \<and> seenDesktopEntryGroup st1 = seenDesktopEntryGroup st"
    using writeAction_frame [of _ st st1] by (auto simp: sameButActions_refl)
  then show "currentGroup st1 = currentGroup st" and "sameButActions st st1"
    and "seenDesktopEntryGroup st1 = seenDesktopEntryGroup st" by simp_all
qed

lemma entryKey_frame:
  "currentGroup (entryKey k v st) = currentGroup st"
  "seenDesktopEntryGroup (entryKey k v st) = seenDesktopEntryGroup st"
  "Actions (de (entryKey k v st)) = Actions (de st)"
  by (simp_all add: entryKey_def)

lemma parseLoop_append:
  "parseLoop fn (xs @ ys) st =
    (case parseLoop fn xs st of Inl e \<Rightarrow> Inl e | Inr st1 \<Rightarrow> parseLoop fn ys st1)"
  by (induction xs arbitrary: st) (auto split: sum.splits)

lemma parseLoop_lastValue:
  fixes F :: "parseState \<Rightarrow> 'a"
  assumes key: "\<And>k v s. F (entryKey k v s) = (if k = key then g v else F s)"
    and frame: "\<And>s s1. sameButActions s s1 \<Longrightarrow> F s1 = F s"
  shows "parseLoop fn ls st = Inr st1 \<Longrightarrow>
    F st1 = (case lastValue key (entryGroupBody (currentGroup st = desktopEntryGroup) ls) of
               None \<Rightarrow> F st | Some v \<Rightarrow> g v)"
proof (induction ls arbitrary: st)
  case Nil
  then show ?case by simp
next
  case (Cons l ls)
  let ?t = "TrimSpace l"
  from Cons.prems obtain st' where step: "parseLine fn l st = Inr st'"
    and rest: "parseLoop fn ls st' = Inr st1"
    by (auto split: sum.splits)
  note IH = Cons.IH [OF rest]
  show ?case
  proof (cases "skipped ?t")
    case True
    with step have "st' = st" by (simp add: parseLine_skipped)
    with IH True show ?thesis by (auto simp: skipped_def Let_def split: option.splits)
  next
    case ns: False
    show ?thesis
    proof (cases "HasPrefix ?t ''[''")
      case True
      with ns step have sg: "startGroup fn ?t st = Inr st'" by (simp add: parseLine_header)
      from startGroup_frame(1,2) [OF sg] frame [of st st'] IH ns True
      show ?thesis by (auto simp: skipped_def Let_def split: option.splits)
    next
      case nh: False
      from ns nh step have eq: "CHR ''='' \<in> set ?t"
        by (auto simp: parseLine_keyvalue split: if_splits)
      show ?thesis
      proof (cases "currentGroup st")
        case unknownGroup
        with ns nh step eq have "st' = st" by (simp add: parseLine_keyvalue)
        with IH ns nh unknownGroup show ?thesis
          by (auto simp: skipped_def Let_def split: option.splits)
      next
        case desktopEntryGroup
        with ns nh step eq have "st' = entryKey (keyOf ?t) (valueOf ?t) st"
          by (simp add: parseLine_keyvalue)
        with IH ns nh desktopEntryGroup key [of "keyOf ?t" "valueOf ?t" st]
        show ?thesis by (auto simp: skipped_def Let_def entryKey_frame split: option.splits)
      next
        case desktopActionGroup
        with ns nh step eq have "actionKey (keyOf ?t) (valueOf ?t) st = Inr st'"
          by (simp add: parseLine_keyvalue)
        from actionKey_frame(1,2) [OF this] frame [of st st'] IH ns nh desktopActionGroup
        show ?thesis by (auto simp: skipped_def Let_def split: option.splits)
      qed
    qed
  qed
qed

lemma lastValue_None_iff: "lastValue key body = None \<longleftrightarrow> (\<forall>l\<in>set body. keyOf l \<noteq> key)"
  by (induction body) (auto split: option.splits)

lemma parse_Inr: "parse fn ls = Inr e \<longleftrightarrow> (\<exists>st. parseLoop fn ls (initialState fn) = Inr st \<and> e = de st)"
  by (auto simp: parse_def split: sum.splits)

lemma parse_Inl: "parse fn ls = Inl err \<longleftrightarrow> parseLoop fn ls (initialState fn) = Inl err"
  by (auto simp: parse_def split: sum.splits)




lemma parseLoop_actions:
  assumes st: "parseLoop fn ls (initialState fn) = Inr st"
  shows "actions st =
    (case lastValue ''Actions'' (entryGroupBody False ls) of
       None \<Rightarrow> [] | Some v \<Rightarrow> splitStringList v)"
proof -
  have "actions st =
    (case lastValue ''Actions''
        (entryGroupBody (currentGroup (initialState fn) = desktopEntryGroup) ls) of
       None \<Rightarrow> actions (initialState fn) | Some v \<Rightarrow> splitStringList v)"
  proof (rule parseLoop_lastValue [OF _ _ st])
    show "actions (entryKey k v s) = (if k = ''Actions'' then splitStringList v else actions s)"
      for k v s
      by (simp add: entryKey_def)
    show "sameButActions s s1 \<Longrightarrow> actions s1 = actions s" for s s1
      by (simp add: sameButActions_def)
  qed
  then show ?thesis by (simp add: initialState_def split: option.splits)
qed

section \<open>The parser does not panic\<close>

text \<open>
  The two places where \<^verbatim>\<open>parse\<close> could panic are the slice of the action name out of
  the header and the writes through \<^verbatim>\<open>currentAction\<close>. Neither does: a line with the
  prefix \<^verbatim>\<open>[Desktop Action \<close> and the suffix \<^verbatim>\<open>]\<close> has at least 17 bytes, and in
  the action group \<^verbatim>\<open>currentAction\<close> points to an entry of the map.
\<close>

definition actionPointerValid :: "parseState \<Rightarrow> bool" where
  "actionPointerValid st \<longleftrightarrow>
     (currentGroup st = desktopActionGroup \<longrightarrow>
        (\<exists>k. currentAction st = Some k \<and> actionAt (de st) k \<noteq> None))"

lemma action_header_length:
  assumes "HasPrefix t ''[Desktop Action ''" and "HasSuffix t '']''"
  shows "17 \<le> length t"
proof (rule ccontr)
  assume "\<not> 17 \<le> length t"
  with assms(1) have "length t = 16" by (simp add: HasPrefix_def)
  with assms(1) have "t = ''[Desktop Action ''" by (simp add: HasPrefix_def)
  with assms(2) show False by (simp add: HasSuffix_def)
qed

lemma startAction_in_range:
  assumes "HasPrefix t ''[Desktop Action ''" and "HasSuffix t '']''"
  obtains action where
    "startAction fn t st =
      (if \<not> ListContains (actions st) action then Inl (ErrUnknownAction fn action)
       else if actionAt (de st) action \<noteq> None then Inl (ErrMultipleActionGroups fn t)
       else Inr (st\<lparr>currentGroup := desktopActionGroup,
                   de := (de st)\<lparr>Actions :=
                     Some ((case Actions (de st) of None \<Rightarrow> Map.empty | Some m \<Rightarrow> m)
                            (action \<mapsto> \<lparr>Action.Name = [], Icon = [], Exec = []\<rparr>))\<rparr>,
                   currentAction := Some action\<rparr>))"
proof -
  have len: "17 \<le> length t" by (rule action_header_length [OF assms])
  have n: "length ''[Desktop Action '' = (16::nat)" by simp
  have z: "(length t = 0) = False" using len by (cases t) simp_all
  have sl: "slice t (length ''[Desktop Action '') (length t - 1)
              = Some (take (length t - 1 - 16) (drop 16 t))"
    unfolding n using len by (simp add: slice_def)
  have "startAction fn t st =
      (if \<not> ListContains (actions st) (take (length t - 1 - 16) (drop 16 t))
       then Inl (ErrUnknownAction fn (take (length t - 1 - 16) (drop 16 t)))
       else if actionAt (de st) (take (length t - 1 - 16) (drop 16 t)) \<noteq> None
       then Inl (ErrMultipleActionGroups fn t)
       else Inr (st\<lparr>currentGroup := desktopActionGroup,
                   de := (de st)\<lparr>Actions :=
                     Some ((case Actions (de st) of None \<Rightarrow> Map.empty | Some m \<Rightarrow> m)
                            (take (length t - 1 - 16) (drop 16 t)
                               \<mapsto> \<lparr>Action.Name = [], Icon = [], Exec = []\<rparr>))\<rparr>,
                   currentAction := Some (take (length t - 1 - 16) (drop 16 t))\<rparr>))"
    unfolding startAction_def z sl by simp
  then show ?thesis by (rule that)
qed

lemma startAction_no_panic:
  assumes "HasPrefix t ''[Desktop Action ''" and "HasSuffix t '']''"
  shows "startAction fn t st \<noteq> Inl Panic"
    and "startAction fn t st = Inr st1 \<Longrightarrow> actionPointerValid st1"
proof -
  from startAction_in_range [OF assms, of fn st] obtain action where
    eq: "startAction fn t st =
      (if \<not> ListContains (actions st) action then Inl (ErrUnknownAction fn action)
       else if actionAt (de st) action \<noteq> None then Inl (ErrMultipleActionGroups fn t)
       else Inr (st\<lparr>currentGroup := desktopActionGroup,
                   de := (de st)\<lparr>Actions :=
                     Some ((case Actions (de st) of None \<Rightarrow> Map.empty | Some m \<Rightarrow> m)
                            (action \<mapsto> \<lparr>Action.Name = [], Icon = [], Exec = []\<rparr>))\<rparr>,
                   currentAction := Some action\<rparr>))" .
  show "startAction fn t st \<noteq> Inl Panic"
    unfolding eq by simp
  show "actionPointerValid st1" if "startAction fn t st = Inr st1"
    using that unfolding eq
    by (auto simp: actionPointerValid_def actionAt_def split: if_splits)
qed

lemma startGroup_no_panic:
  shows "startGroup fn t st \<noteq> Inl Panic"
    and "startGroup fn t st = Inr st1 \<Longrightarrow> actionPointerValid st1"
proof -
  show "startGroup fn t st \<noteq> Inl Panic"
    using startAction_no_panic(1) [of t fn st] by (simp add: startGroup_def)
  show "actionPointerValid st1" if "startGroup fn t st = Inr st1"
  proof (cases "t = ''[Desktop Entry]''")
    case True
    with that show ?thesis
      by (auto simp: startGroup_entry actionPointerValid_def split: if_splits)
  next
    case False
    show ?thesis
    proof (cases "HasPrefix t ''[Desktop Action '' \<and> HasSuffix t '']''")
      case True
      with False that have "startAction fn t st = Inr st1" by (simp add: startGroup_def)
      with True show ?thesis using startAction_no_panic(2) by blast
    next
      case no: False
      with False that have "st1 = st\<lparr>currentGroup := unknownGroup\<rparr>"
        by (auto simp: startGroup_def)
      then show ?thesis by (simp add: actionPointerValid_def)
    qed
  qed
qed

lemma writeAction_no_panic:
  assumes "actionPointerValid st" and "currentGroup st = desktopActionGroup"
  shows "writeAction f st \<noteq> Inl Panic"
    and "writeAction f st = Inr st1 \<Longrightarrow> actionPointerValid st1"
  using assms
  by (auto simp: writeAction_def actionPointerValid_def actionAt_def split: option.splits)

lemma actionKey_no_panic:
  assumes "actionPointerValid st" and "currentGroup st = desktopActionGroup"
  shows "actionKey k v st \<noteq> Inl Panic"
    and "actionKey k v st = Inr st1 \<Longrightarrow> actionPointerValid st1"
  using assms writeAction_no_panic [OF assms]
  by (auto simp: actionKey_def split: if_splits)

lemma entryKey_valid:
  "currentGroup st = desktopEntryGroup \<Longrightarrow> actionPointerValid (entryKey k v st)"
  by (simp add: actionPointerValid_def entryKey_frame)

lemma parseLine_no_panic:
  assumes "actionPointerValid st"
  shows "parseLine fn l st \<noteq> Inl Panic"
    and "parseLine fn l st = Inr st1 \<Longrightarrow> actionPointerValid st1"
proof -
  have "parseLine fn l st \<noteq> Inl Panic \<and>
        (parseLine fn l st = Inr st1 \<longrightarrow> actionPointerValid st1)"
  proof (cases "skipped (TrimSpace l)")
    case True
    with assms show ?thesis by (auto simp: parseLine_skipped)
  next
    case ns: False
    show ?thesis
    proof (cases "HasPrefix (TrimSpace l) ''[''")
      case True
      with ns startGroup_no_panic(1) [of fn "TrimSpace l" st]
        startGroup_no_panic(2) [of fn "TrimSpace l" st st1] show ?thesis
        by (simp add: parseLine_header)
    next
      case False
      show ?thesis
      proof (cases "currentGroup st")
        case unknownGroup
        with ns False assms show ?thesis by (auto simp: parseLine_keyvalue)
      next
        case desktopEntryGroup
        with ns False entryKey_valid [of st] show ?thesis
          by (auto simp: parseLine_keyvalue)
      next
        case desktopActionGroup
        with ns False actionKey_no_panic [OF assms desktopActionGroup] show ?thesis
          by (auto simp: parseLine_keyvalue)
      qed
    qed
  qed
  then show "parseLine fn l st \<noteq> Inl Panic"
    and "parseLine fn l st = Inr st1 \<Longrightarrow> actionPointerValid st1" by simp_all
qed

lemma parseLoop_no_panic:
  "actionPointerValid st \<Longrightarrow> parseLoop fn ls st \<noteq> Inl Panic"
proof (induction ls arbitrary: st)
  case Nil
  then show ?case by simp
next
  case (Cons l ls)
  show ?case
  proof (cases "parseLine fn l st")
    case (Inl err)
    with parseLine_no_panic(1) [OF Cons.prems, of fn l] show ?thesis by auto
  next
    case (Inr st1)
    with parseLine_no_panic(2) [OF Cons.prems] Cons.IH show ?thesis by simp
  qed
qed

lemma parse_no_panic: "parse fn ls \<noteq> Inl Panic"
  using parseLoop_no_panic [of "initialState fn" fn ls]
  by (auto simp: parse_def actionPointerValid_def initialState_def split: sum.splits)

section \<open>Group headers\<close>

lemmas eval_defs = parse_def parseLine_def startGroup_def startAction_def initialState_def
  TrimSpace_def TrimLeftSpace.simps TrimRightSpace.simps leadingSpace_def trailingSpace_def
  spaceRunes_def HasPrefix_def HasSuffix_def SplitN2_def slice_def keyOf_def valueOf_def
  TrimRight_def TrimLeft_def cutset_def entryKey_def actionKey_def writeAction_def actionAt_def
  splitStringList_def FieldsFunc_def scanLines_def dropCR_def MaxScanTokenSize_def
  parseReader_def Let_def

lemmas body_defs = TrimSpace_def TrimLeftSpace.simps TrimRightSpace.simps leadingSpace_def
  trailingSpace_def spaceRunes_def HasPrefix_def HasSuffix_def SplitN2_def keyOf_def valueOf_def
  TrimRight_def TrimLeft_def cutset_def Let_def

lemma header_line: "\<not> skipped ''[Desktop Entry]''" "HasPrefix ''[Desktop Entry]'' ''[''"
  by (simp_all add: skipped_def HasPrefix_def)

lemma parseLine_entry_header:
  "TrimSpace l = ''[Desktop Entry]'' \<Longrightarrow>
   parseLine fn l st =
     (if seenDesktopEntryGroup st then Inl (ErrMultipleDesktopEntry fn)
      else Inr (st\<lparr>seenDesktopEntryGroup := True, currentGroup := desktopEntryGroup\<rparr>))"
  using parseLine_header [of l fn st] header_line by (simp add: startGroup_entry)

lemma parseLine_seen:
  assumes "parseLine fn l st = Inr st1" and "seenDesktopEntryGroup st"
  shows "seenDesktopEntryGroup st1"
proof (cases "skipped (TrimSpace l)")
  case True
  with assms show ?thesis by (simp add: parseLine_skipped)
next
  case ns: False
  show ?thesis
  proof (cases "HasPrefix (TrimSpace l) ''[''")
    case True
    with ns assms have "startGroup fn (TrimSpace l) st = Inr st1" by (simp add: parseLine_header)
    from startGroup_frame(3) [OF this] assms show ?thesis by simp
  next
    case False
    with ns assms actionKey_frame(3) [of _ _ st st1] show ?thesis
      by (cases "currentGroup st")
         (auto simp: parseLine_keyvalue entryKey_frame split: if_splits)
  qed
qed

lemma parseLoop_seen:
  "parseLoop fn ls st = Inr st1 \<Longrightarrow> seenDesktopEntryGroup st \<Longrightarrow> seenDesktopEntryGroup st1"
  by (induction ls arbitrary: st) (auto split: sum.splits dest: parseLine_seen)

lemma parseLoop_seen_after:
  "l \<in> set ls \<Longrightarrow> TrimSpace l = ''[Desktop Entry]'' \<Longrightarrow> parseLoop fn ls st = Inr st1 \<Longrightarrow>
   seenDesktopEntryGroup st1"
proof (induction ls arbitrary: st)
  case Nil
  then show ?case by simp
next
  case (Cons x xs)
  from Cons.prems(3) obtain st' where step: "parseLine fn x st = Inr st'"
    and rest: "parseLoop fn xs st' = Inr st1"
    by (auto split: sum.splits)
  show ?case
  proof (cases "l = x")
    case True
    with Cons.prems(2) step have "seenDesktopEntryGroup st'"
      by (auto simp: parseLine_entry_header split: if_splits)
    with rest show ?thesis by (rule parseLoop_seen)
  next
    case False
    with Cons.prems(1) have "l \<in> set xs" by simp
    from Cons.IH [OF this Cons.prems(2) rest] show ?thesis .
  qed
qed

text \<open>
  Two \<open>[Desktop Entry]\<close> headers among the lines that the loop reads: the loop returns an
  error, the one of the lines before the second header if they fail on their own, and
  the "multiple [Desktop Entry] groups" error otherwise.
\<close>

lemma two_entry_groups_lines:
  assumes "i < j" and "j < length ls"
    and "TrimSpace (ls ! i) = ''[Desktop Entry]''"
    and "TrimSpace (ls ! j) = ''[Desktop Entry]''"
  shows "(\<exists>err. parse fn ls = Inl err) \<and>
    (case parse fn (take j ls) of
       Inl err \<Rightarrow> parse fn ls = Inl err
     | Inr e \<Rightarrow> parse fn ls = Inl (ErrMultipleDesktopEntry fn))"
proof -
  have ls: "ls = take j ls @ ls ! j # drop (Suc j) ls"
    using assms(2) by (simp add: id_take_nth_drop)
  have mem: "ls ! i \<in> set (take j ls)"
    using assms(1,2) by (metis in_set_conv_nth length_take min.absorb2 nat_less_le nth_take)
  show ?thesis
  proof (cases "parseLoop fn (take j ls) (initialState fn)")
    case (Inl err)
    then have "parseLoop fn (take j ls @ ls ! j # drop (Suc j) ls) (initialState fn) = Inl err"
      by (simp add: parseLoop_append)
    with ls have "parse fn ls = Inl err" by (simp add: parse_Inl)
    moreover from Inl have "parse fn (take j ls) = Inl err" by (simp add: parse_Inl)
    ultimately show ?thesis by simp
  next
    case (Inr st)
    from parseLoop_seen_after [OF mem assms(3) Inr] have "seenDesktopEntryGroup st" .
    with assms(4) have "parseLine fn (ls ! j) st = Inl (ErrMultipleDesktopEntry fn)"
      by (simp add: parseLine_entry_header)
    with Inr have "parseLoop fn (take j ls @ ls ! j # drop (Suc j) ls) (initialState fn)
        = Inl (ErrMultipleDesktopEntry fn)"
      by (simp add: parseLoop_append)
    with ls have "parse fn ls = Inl (ErrMultipleDesktopEntry fn)" by (simp add: parse_Inl)
    moreover from Inr have "parse fn (take j ls) = Inr (de st)" by (simp add: parse_def)
    ultimately show ?thesis by simp
  qed
qed

text \<open>
  Claim C3, as amended. Let the scanner deliver two lines of the input stream that each
  equal \<open>[Desktop Entry]\<close> after trimming (it delivers line \<open>j\<close> exactly when no line of
  the stream up to line \<open>j\<close> has \<open>MaxScanTokenSize\<close> bytes or more, see \<open>delivered_iff\<close>).
  Then \<open>parse\<close> returns an error, whatever the other lines are. The error is the one of
  the lines before the second occurrence if they do not parse on their own (a badly
  formed line, an unknown action or a repeated action group stops the parse first), and
  the "multiple [Desktop Entry] groups" error otherwise. Nothing is said about a stream
  in which the scanner stops before the second header.
\<close>

theorem two_entry_groups:
  assumes "i < j" and "j < length (scanLines stream)"
    and "TrimSpace (scanLines stream ! i) = ''[Desktop Entry]''"
    and "TrimSpace (scanLines stream ! j) = ''[Desktop Entry]''"
  shows "(\<exists>err. parseReader fn stream = Inl err) \<and>
    (case parse fn (take j (scanLines stream)) of
       Inl err \<Rightarrow> parseReader fn stream = Inl err
     | Inr e \<Rightarrow> parseReader fn stream = Inl (ErrMultipleDesktopEntry fn))"
  unfolding parseReader_def by (rule two_entry_groups_lines [OF assms])

text \<open>
  The claim as stated gives the "multiple groups" error regardless of the lines between
  the two headers. A line without \<open>=\<close> between them stops the parse before the second
  header is read, with the "badly formed" error; the scanner delivers all three lines.
\<close>

theorem two_entry_groups_counterexample:
  "scanLines ''[Desktop Entry]\<newline>Name\<newline>[Desktop Entry]\<newline>''
     = [''[Desktop Entry]'', ''Name'', ''[Desktop Entry]''] \<and>
   TrimSpace ''[Desktop Entry]'' = ''[Desktop Entry]'' \<and>
   parseReader ''f'' ''[Desktop Entry]\<newline>Name\<newline>[Desktop Entry]\<newline>''
     = Inl (ErrBadlyFormed ''f'') \<and>
   parseReader ''f'' ''[Desktop Entry]\<newline>Name\<newline>[Desktop Entry]\<newline>''
     \<noteq> Inl (ErrMultipleDesktopEntry ''f'')"
  by (simp add: eval_defs)

theorem two_entry_groups_witness:
  "parseReader ''f'' ''[Desktop Entry]\<newline>Name=a\<newline>  [Desktop Entry]\<newline>Name=b\<newline>''
     = Inl (ErrMultipleDesktopEntry ''f'')"
proof -
  let ?s = "''[Desktop Entry]\<newline>Name=a\<newline>  [Desktop Entry]\<newline>Name=b\<newline>''"
  have ls: "scanLines ?s = [''[Desktop Entry]'', ''Name=a'', ''  [Desktop Entry]'', ''Name=b'']"
    by (simp add: scanLines_def dropCR_def MaxScanTokenSize_def)
  have a: "(0::nat) < 2" "2 < length (scanLines ?s)" by (simp_all add: ls)
  have b: "TrimSpace (scanLines ?s ! 0) = ''[Desktop Entry]''"
    "TrimSpace (scanLines ?s ! 2) = ''[Desktop Entry]''"
    by (simp_all add: ls body_defs)
  obtain e where c: "parse ''f'' (take 2 (scanLines ?s)) = Inr e"
    by (simp add: ls eval_defs)
  from two_entry_groups [OF a b, of "''f''"] c show ?thesis by simp
qed

lemma action_header_line:
  "''[Desktop Action '' @ X @ '']'' \<noteq> ''[Desktop Entry]''"
  "\<not> skipped (''[Desktop Action '' @ X @ '']'')"
  "HasPrefix (''[Desktop Action '' @ X @ '']'') ''[''"
  "HasPrefix (''[Desktop Action '' @ X @ '']'') ''[Desktop Action ''"
  "HasSuffix (''[Desktop Action '' @ X @ '']'') '']''"
  "slice (''[Desktop Action '' @ X @ '']'') (length ''[Desktop Action '')
     (length (''[Desktop Action '' @ X @ '']'') - 1) = Some X"
  by (simp_all add: skipped_def HasPrefix_def HasSuffix_def slice_def)

lemma parseLine_action_header:
  assumes "TrimSpace l = ''[Desktop Action '' @ X @ '']''"
  shows "parseLine fn l st =
    (if \<not> ListContains (actions st) X then Inl (ErrUnknownAction fn X)
     else if actionAt (de st) X \<noteq> None then Inl (ErrMultipleActionGroups fn (TrimSpace l))
     else Inr (st\<lparr>currentGroup := desktopActionGroup,
                 de := (de st)\<lparr>Actions :=
                   Some ((case Actions (de st) of None \<Rightarrow> Map.empty | Some m \<Rightarrow> m)
                          (X \<mapsto> \<lparr>Action.Name = [], Icon = [], Exec = []\<rparr>))\<rparr>,
                 currentAction := Some X\<rparr>))"
proof -
  have "parseLine fn l st = startGroup fn (TrimSpace l) st"
    using assms action_header_line(2,3) [of X] by (simp add: parseLine_header)
  also have "\<dots> = startAction fn (TrimSpace l) st"
    using assms action_header_line(1,4,5) [of X] by (simp add: startGroup_def)
  finally show ?thesis
    using assms action_header_line(6) [of X] by (simp add: startAction_def)
qed

lemma parse_snoc:
  assumes "parseLoop fn pre (initialState fn) = Inr st"
  shows "parse fn (pre @ l # post) =
    (case parseLine fn l st of
       Inl err \<Rightarrow> Inl err
     | Inr st1 \<Rightarrow> (case parseLoop fn post st1 of Inl err \<Rightarrow> Inl err | Inr st2 \<Rightarrow> Inr (de st2)))"
  using assms by (simp add: parse_def parseLoop_append split: sum.splits)

text \<open>
  A \<open>[Desktop Action X]\<close> header among the lines that the loop reads. Let the lines before
  line \<open>j\<close> parse without error, and let line \<open>j\<close> be the header after trimming. If \<open>X\<close>
  is not in the list of the \<open>Actions\<close> key of the [Desktop Entry] group on the earlier
  lines (the last such key, which is the one the parser keeps; the empty list if there is
  none), the loop fails with the "unknown action" error for \<open>X\<close>. In particular it does so
  when no \<open>Actions\<close> key precedes the header, whatever follows it. If \<open>X\<close> is in the list,
  reading the header does not give that error.
\<close>

lemma unknown_action_lines:
  assumes "j < length ls"
    and "TrimSpace (ls ! j) = ''[Desktop Action '' @ X @ '']''"
    and "parse fn (take j ls) = Inr e"
  shows
    "(X \<notin> set (declaredActions (take j ls)) \<longrightarrow> parse fn ls = Inl (ErrUnknownAction fn X)) \<and>
     ((\<forall>l\<in>set (entryGroupBody False (take j ls)). keyOf l \<noteq> ''Actions'') \<longrightarrow>
        parse fn ls = Inl (ErrUnknownAction fn X)) \<and>
     (X \<in> set (declaredActions (take j ls)) \<longrightarrow>
        parse fn (take (Suc j) ls) \<noteq> Inl (ErrUnknownAction fn X))"
proof -
  from assms(3) obtain st where st: "parseLoop fn (take j ls) (initialState fn) = Inr st"
    by (auto simp: parse_Inr)
  have acts: "actions st = declaredActions (take j ls)"
    using parseLoop_actions [OF st] by (simp add: declaredActions_def)
  have ls: "ls = take j ls @ ls ! j # drop (Suc j) ls"
    using assms(1) by (simp add: id_take_nth_drop)
  have upto: "take (Suc j) ls = take j ls @ ls ! j # []"
    using assms(1) by (simp add: take_Suc_conv_app_nth)
  have none: "declaredActions (take j ls) = []"
    if "\<forall>l\<in>set (entryGroupBody False (take j ls)). keyOf l \<noteq> ''Actions''"
    using that lastValue_None_iff [of "''Actions''" "entryGroupBody False (take j ls)"]
    by (simp add: declaredActions_def)
  have a: "parse fn ls = Inl (ErrUnknownAction fn X)" if "X \<notin> set (declaredActions (take j ls))"
  proof -
    from that acts have "parseLine fn (ls ! j) st = Inl (ErrUnknownAction fn X)"
      by (simp add: parseLine_action_header [OF assms(2)] ListContains_set)
    with parse_snoc [OF st, of "ls ! j" "drop (Suc j) ls"] ls show ?thesis by simp
  qed
  have c: "parse fn (take (Suc j) ls) \<noteq> Inl (ErrUnknownAction fn X)"
    if "X \<in> set (declaredActions (take j ls))"
  proof -
    from that acts have "parseLine fn (ls ! j) st \<noteq> Inl (ErrUnknownAction fn X)"
      by (simp add: parseLine_action_header [OF assms(2)] ListContains_set)
    with parse_snoc [OF st, of "ls ! j" "[]"] upto show ?thesis
      by (auto split: sum.splits)
  qed
  from a c none show ?thesis by auto
qed

lemma unknown_action_lines_example:
  "parse ''f'' (scanLines ''[Desktop Action run]\<newline>Name=Run\<newline>[Desktop Entry]\<newline>Actions=run;\<newline>'')
     = Inl (ErrUnknownAction ''f'' ''run'') \<and>
   parse ''f'' [''[Desktop Entry]'', ''Actions=stop;'', ''[Desktop Action run]'']
     = Inl (ErrUnknownAction ''f'' ''run'') \<and>
   parse ''f'' (take 3 [''[Desktop Entry]'', ''Actions=run;'', ''[Desktop Action run]''])
     \<noteq> Inl (ErrUnknownAction ''f'' ''run'')"
proof -
  let ?a = "scanLines ''[Desktop Action run]\<newline>Name=Run\<newline>[Desktop Entry]\<newline>Actions=run;\<newline>''"
  let ?b = "[''[Desktop Entry]'', ''Actions=stop;'', ''[Desktop Action run]'']"
  let ?c = "[''[Desktop Entry]'', ''Actions=run;'', ''[Desktop Action run]'']"
  have la: "?a = [''[Desktop Action run]'', ''Name=Run'', ''[Desktop Entry]'', ''Actions=run;'']"
    by (simp add: scanLines_def dropCR_def MaxScanTokenSize_def)
  have a1: "0 < length ?a" by (simp add: la)
  have a2: "TrimSpace (?a ! 0) = ''[Desktop Action '' @ ''run'' @ '']''"
    by (simp add: la eval_defs)
  obtain ea where a3: "parse ''f'' (take 0 ?a) = Inr ea" by (simp add: eval_defs)
  have a4: "\<forall>l\<in>set (entryGroupBody False (take 0 ?a)). keyOf l \<noteq> ''Actions''" by simp
  have b1: "2 < length ?b" by simp
  have b2: "TrimSpace (?b ! 2) = ''[Desktop Action '' @ ''run'' @ '']''"
    by (simp add: eval_defs)
  obtain eb where b3: "parse ''f'' (take 2 ?b) = Inr eb" by (simp add: eval_defs)
  have b4: "''run'' \<notin> set (declaredActions (take 2 ?b))"
    by (simp add: declaredActions_def eval_defs)
  have c1: "2 < length ?c" by simp
  have c2: "TrimSpace (?c ! 2) = ''[Desktop Action '' @ ''run'' @ '']''"
    by (simp add: eval_defs)
  obtain ec where c3: "parse ''f'' (take 2 ?c) = Inr ec" by (simp add: eval_defs)
  have c4: "''run'' \<in> set (declaredActions (take 2 ?c))"
    by (simp add: declaredActions_def eval_defs)
  from unknown_action_lines [OF a1 a2 a3] a4 unknown_action_lines [OF b1 b2 b3] b4
    unknown_action_lines [OF c1 c2 c3] c4
  show ?thesis by (simp add: numeral_3_eq_3)
qed



section \<open>Absent and empty lists\<close>







section \<open>Input without a [Desktop Entry] group\<close>

lemma parseLine_unknown_stays:
  assumes "currentGroup st = unknownGroup"
    and "TrimSpace l \<noteq> ''[Desktop Entry]''"
    and "\<not> (HasPrefix (TrimSpace l) ''[Desktop Action '' \<and> HasSuffix (TrimSpace l) '']'')"
    and "TrimSpace l \<noteq> [] \<and> \<not> HasPrefix (TrimSpace l) ''#'' \<and> \<not> HasPrefix (TrimSpace l) ''[''
          \<longrightarrow> CHR ''='' \<in> set (TrimSpace l)"
  shows "parseLine fn l st = Inr st"
proof (cases "skipped (TrimSpace l)")
  case True
  then show ?thesis by (simp add: parseLine_skipped)
next
  case ns: False
  show ?thesis
  proof (cases "HasPrefix (TrimSpace l) ''[''")
    case True
    with ns have "parseLine fn l st = startGroup fn (TrimSpace l) st"
      by (simp add: parseLine_header)
    also from assms(2,3) have "\<dots> = Inr (st\<lparr>currentGroup := unknownGroup\<rparr>)"
      by (auto simp: startGroup_def)
    also from assms(1) have "st\<lparr>currentGroup := unknownGroup\<rparr> = st" by simp
    finally show ?thesis .
  next
    case False
    with ns assms(1,4) show ?thesis by (simp add: parseLine_keyvalue skipped_def)
  qed
qed

lemma parseLoop_unknown_stays:
  assumes "currentGroup st = unknownGroup"
    and "\<forall>l\<in>set ls. TrimSpace l \<noteq> ''[Desktop Entry]''"
    and "\<forall>l\<in>set ls. \<not> (HasPrefix (TrimSpace l) ''[Desktop Action '' \<and> HasSuffix (TrimSpace l) '']'')"
    and "\<forall>l\<in>set ls. TrimSpace l \<noteq> [] \<and> \<not> HasPrefix (TrimSpace l) ''#'' \<and>
           \<not> HasPrefix (TrimSpace l) ''['' \<longrightarrow> CHR ''='' \<in> set (TrimSpace l)"
  shows "parseLoop fn ls st = Inr st"
  using assms
proof (induction ls)
  case Nil
  then show ?case by simp
next
  case (Cons l ls)
  from Cons.prems have "parseLine fn l st = Inr st"
    by (intro parseLine_unknown_stays) simp_all
  moreover from Cons have "parseLoop fn ls st = Inr st" by simp
  ultimately show ?case by simp
qed

text \<open>
  Claim C8, as amended. If no line of the input is a \<open>[Desktop Entry]\<close> header or a
  \<open>[Desktop Action ...]\<close> header after trimming, and every line that is not blank, not a
  comment and not a header contains \<open>=\<close>, then \<open>parse\<close> succeeds, and the entry has the
  file name, empty \<open>Name\<close>, \<open>Icon\<close> and \<open>Exec\<close>, \<open>Hidden\<close> false, nil \<open>OnlyShowIn\<close>,
  \<open>NotShownIn\<close> and \<open>Actions\<close>, and \<open>GnomeAutostartEnabled\<close> true. Nothing checks that a
  [Desktop Entry] group was seen.
\<close>

theorem no_entry_group:
  assumes "\<forall>l\<in>set ls. TrimSpace l \<noteq> ''[Desktop Entry]''"
    and "\<forall>l\<in>set ls. \<not> (HasPrefix (TrimSpace l) ''[Desktop Action '' \<and> HasSuffix (TrimSpace l) '']'')"
    and "\<forall>l\<in>set ls. TrimSpace l \<noteq> [] \<and> \<not> HasPrefix (TrimSpace l) ''#'' \<and>
           \<not> HasPrefix (TrimSpace l) ''['' \<longrightarrow> CHR ''='' \<in> set (TrimSpace l)"
  shows "parse fn ls =
    Inr \<lparr>Filename = fn, Name = [], Icon = [], Exec = [], Hidden = False,
         OnlyShowIn = None, NotShownIn = None, GnomeAutostartEnabled = True, Actions = None\<rparr>"
proof -
  have "currentGroup (initialState fn) = unknownGroup" by (simp add: initialState_def)
  from parseLoop_unknown_stays [OF this assms]
  show ?thesis by (simp add: parse_def initialState_def)
qed

text \<open>
  The claim as stated puts no condition on the header lines other than
  \<open>[Desktop Entry]\<close>. Without a [Desktop Entry] group no action is declared, so a
  \<open>[Desktop Action ...]\<close> header fails with the "unknown action" error.
\<close>

theorem no_entry_group_counterexample:
  "TrimSpace ''[Desktop Action run]'' \<noteq> ''[Desktop Entry]'' \<and>
   HasPrefix (TrimSpace ''[Desktop Action run]'') ''['' \<and>
   parse ''f'' [''[Desktop Action run]''] = Inl (ErrUnknownAction ''f'' ''run'')"
  by (simp add: eval_defs)

theorem no_entry_group_witness:
  "parse ''f'' (scanLines ''# no entry group\<newline>\<newline>[Other Group]\<newline>Name = a\<newline>Hidden=true\<newline>'') =
    Inr \<lparr>Filename = ''f'', Name = [], Icon = [], Exec = [], Hidden = False,
         OnlyShowIn = None, NotShownIn = None, GnomeAutostartEnabled = True, Actions = None\<rparr>"
proof -
  let ?ls = "scanLines ''# no entry group\<newline>\<newline>[Other Group]\<newline>Name = a\<newline>Hidden=true\<newline>''"
  have ls: "?ls = [''# no entry group'', [], ''[Other Group]'', ''Name = a'', ''Hidden=true'']"
    by (simp add: scanLines_def dropCR_def MaxScanTokenSize_def)
  have t: "TrimSpace ''# no entry group'' = ''# no entry group''" "TrimSpace [] = []"
    "TrimSpace ''[Other Group]'' = ''[Other Group]''" "TrimSpace ''Name = a'' = ''Name = a''"
    "TrimSpace ''Hidden=true'' = ''Hidden=true''"
    by (simp_all add: body_defs)
  have a: "\<forall>l\<in>set ?ls. TrimSpace l \<noteq> ''[Desktop Entry]''"
    by (simp add: ls t)
  have b: "\<forall>l\<in>set ?ls.
      \<not> (HasPrefix (TrimSpace l) ''[Desktop Action '' \<and> HasSuffix (TrimSpace l) '']'')"
    by (simp add: ls t HasPrefix_def HasSuffix_def)
  have c: "\<forall>l\<in>set ?ls. TrimSpace l \<noteq> [] \<and> \<not> HasPrefix (TrimSpace l) ''#'' \<and>
           \<not> HasPrefix (TrimSpace l) ''['' \<longrightarrow> CHR ''='' \<in> set (TrimSpace l)"
    by (simp add: ls t HasPrefix_def)
  from no_entry_group [OF a b c] show ?thesis .
qed

section \<open>Lines without a separator\<close>

text \<open>
  A line that after trimming is not blank, does not start with \<open>#\<close>, does not start with
  \<open>[\<close> and contains no \<open>=\<close> gives the "badly formed" error in every state of the parser
  (inside any group, and before any header), and so aborts every run of the loop that
  reads it. Such a line with an \<open>=\<close> is dropped without a trace when the current group is
  not a recognised one.
\<close>

lemma badly_formed_line:
  assumes "TrimSpace l \<noteq> []" and "\<not> HasPrefix (TrimSpace l) ''#''"
    and "\<not> HasPrefix (TrimSpace l) ''[''"
  shows
    "(CHR ''='' \<notin> set (TrimSpace l) \<longrightarrow>
        (\<forall>st. parseLine fn l st = Inl (ErrBadlyFormed fn)) \<and>
        (\<forall>pre post e. parse fn pre = Inr e \<longrightarrow>
           parse fn (pre @ l # post) = Inl (ErrBadlyFormed fn))) \<and>
     (CHR ''='' \<in> set (TrimSpace l) \<longrightarrow>
        (\<forall>st. currentGroup st = unknownGroup \<longrightarrow> parseLine fn l st = Inr st))"
proof -
  from assms have ns: "\<not> skipped (TrimSpace l)" by (simp add: skipped_def)
  have a: "parseLine fn l st = Inl (ErrBadlyFormed fn)" if "CHR ''='' \<notin> set (TrimSpace l)" for st
    using that ns assms(3) by (simp add: parseLine_keyvalue)
  have b: "parse fn (pre @ l # post) = Inl (ErrBadlyFormed fn)"
    if "CHR ''='' \<notin> set (TrimSpace l)" and "parse fn pre = Inr e" for pre post e
  proof -
    from that(2) obtain st where "parseLoop fn pre (initialState fn) = Inr st"
      by (auto simp: parse_Inr)
    from parse_snoc [OF this, of l post] a [OF that(1)] show ?thesis by simp
  qed
  have c: "parseLine fn l st = Inr st"
    if "CHR ''='' \<in> set (TrimSpace l)" and "currentGroup st = unknownGroup" for st
    using that ns assms(3) by (simp add: parseLine_keyvalue)
  from a b c show ?thesis by blast
qed


lemma badly_formed_line_example:
  "parseLine ''f'' '' Name '' (initialState ''f'') = Inl (ErrBadlyFormed ''f'') \<and>
   parse ''f'' ([''[Other Group]'', ''Key=value''] @ '' Name '' # [''[Desktop Entry]''])
     = Inl (ErrBadlyFormed ''f'') \<and>
   parse ''f'' ([] @ ''Name'' # [''[Desktop Entry]'']) = Inl (ErrBadlyFormed ''f'') \<and>
   parseLine ''f'' ''Key=value'' (initialState ''f'') = Inr (initialState ''f'')"
proof -
  have a: "TrimSpace '' Name '' \<noteq> []" "\<not> HasPrefix (TrimSpace '' Name '') ''#''"
    "\<not> HasPrefix (TrimSpace '' Name '') ''[''"
    and a': "CHR ''='' \<notin> set (TrimSpace '' Name '')"
    by (simp_all add: body_defs)
  have b: "TrimSpace ''Name'' \<noteq> []" "\<not> HasPrefix (TrimSpace ''Name'') ''#''"
    "\<not> HasPrefix (TrimSpace ''Name'') ''[''"
    and b': "CHR ''='' \<notin> set (TrimSpace ''Name'')"
    by (simp_all add: body_defs)
  have c: "TrimSpace ''Key=value'' \<noteq> []" "\<not> HasPrefix (TrimSpace ''Key=value'') ''#''"
    "\<not> HasPrefix (TrimSpace ''Key=value'') ''[''"
    and c': "CHR ''='' \<in> set (TrimSpace ''Key=value'')"
    by (simp_all add: body_defs)
  obtain e1 where p1: "parse ''f'' [''[Other Group]'', ''Key=value''] = Inr e1"
    by (simp add: eval_defs)
  obtain e2 where p2: "parse ''f'' [] = Inr e2" by (simp add: eval_defs)
  have g: "currentGroup (initialState ''f'') = unknownGroup" by (simp add: initialState_def)
  note A = badly_formed_line [OF a, of "''f''"]
  note B = badly_formed_line [OF b, of "''f''"]
  note C = badly_formed_line [OF c, of "''f''"]
  from A a' have A1: "\<forall>st. parseLine ''f'' '' Name '' st = Inl (ErrBadlyFormed ''f'')"
    and A2: "\<forall>pre post e. parse ''f'' pre = Inr e \<longrightarrow>
           parse ''f'' (pre @ '' Name '' # post) = Inl (ErrBadlyFormed ''f'')"
    by simp_all
  from B b' have B2: "\<forall>pre post e. parse ''f'' pre = Inr e \<longrightarrow>
           parse ''f'' (pre @ ''Name'' # post) = Inl (ErrBadlyFormed ''f'')"
    by simp
  from C c' have C1: "\<forall>st. currentGroup st = unknownGroup \<longrightarrow>
           parseLine ''f'' ''Key=value'' st = Inr st"
    by simp
  have 1: "parseLine ''f'' '' Name '' (initialState ''f'') = Inl (ErrBadlyFormed ''f'')"
    using A1 by (rule spec)
  have 2: "parse ''f'' ([''[Other Group]'', ''Key=value''] @ '' Name '' # [''[Desktop Entry]''])
     = Inl (ErrBadlyFormed ''f'')"
    using A2 [rule_format, OF p1] .
  have 3: "parse ''f'' ([] @ ''Name'' # [''[Desktop Entry]'']) = Inl (ErrBadlyFormed ''f'')"
    using B2 [rule_format, OF p2] .
  have 4: "parseLine ''f'' ''Key=value'' (initialState ''f'') = Inr (initialState ''f'')"
    using C1 [rule_format, OF g] .
  from 1 2 3 4 show ?thesis by (intro conjI)
qed

section \<open>Lines that do not fit the scanner's buffer\<close>

text \<open>
  The loop of \<^verbatim>\<open>parse\<close> ends when \<^verbatim>\<open>scanner.Scan()\<close> returns false, and the function
  then returns the entry with a nil error without reading \<^verbatim>\<open>scanner.Err()\<close>. At a line
  of \<open>MaxScanTokenSize\<close> bytes or more the scanner stops with \<^verbatim>\<open>ErrTooLong\<close>, so that
  line and every line after it are never seen by the loop, and nothing tells the caller.
  The two theorems of this section run the code on such inputs. In each, the first
  equation is what the loop returns on the lines of the stream, and the second is what
  \<^verbatim>\<open>parse\<close> returns on the stream.
\<close>

definition emptyEntry :: "string \<Rightarrow> DesktopEntry" where
  \<comment> \<open>the entry that \<^verbatim>\<open>parse\<close> starts from\<close>
  "emptyEntry fn = \<lparr>Filename = fn, Name = [], Icon = [], Exec = [], Hidden = False,
      OnlyShowIn = None, NotShownIn = None, GnomeAutostartEnabled = True, Actions = None\<rparr>"

lemma parse_Nil: "parse fn [] = Inr (emptyEntry fn)"
  by (simp add: parse_def initialState_def emptyEntry_def)

lemma x_not_space:
  "\<forall>p\<in>set spaceRunes. hd p \<noteq> CHR ''x''" "\<forall>p\<in>set spaceRunes. last p \<noteq> CHR ''x''"
  "\<forall>p\<in>set spaceRunes. hd p \<noteq> CHR ''X''"
  by (simp_all add: spaceRunes_def)

text \<open>
  Claim C4. For every input stream, a \<open>[Desktop Action X]\<close> header makes \<open>parse\<close> fail with
  the "unknown action" error unless \<open>X\<close> is in the list of an \<open>Actions\<close> key of a
  [Desktop Entry] group on an earlier line. The code does not do this on every stream:
  when the first line is \<open>X=\<close> followed by 70000 bytes \<open>x\<close>, and the lines
  \<open>[Desktop Action run]\<close>, \<open>[Desktop Entry]\<close> and \<open>Actions=run;\<close> follow, the loop on these
  four lines fails with the "unknown action" error for \<open>run\<close>, but the scanner delivers
  none of them and \<open>parse\<close> returns the empty entry and no error.
\<close>

theorem unknown_action_long_line:
  "parse ''f'' [''X='' @ replicate 70000 CHR ''x'', ''[Desktop Action run]'',
                ''[Desktop Entry]'', ''Actions=run;'']
     = Inl (ErrUnknownAction ''f'' ''run'') \<and>
   parseReader ''f''
     (''X='' @ replicate 70000 CHR ''x''
       @ ''\<newline>[Desktop Action run]\<newline>[Desktop Entry]\<newline>Actions=run;\<newline>'')
     = Inr (emptyEntry ''f'')"
proof -
  let ?l = "''X='' @ replicate 70000 CHR ''x''"
  have t: "TrimSpace ?l = ?l"
    by (rule TrimSpace_unchanged) (simp_all add: x_not_space)
  have g: "currentGroup (initialState ''f'') = unknownGroup" by (simp add: initialState_def)
  have "parseLine ''f'' ?l (initialState ''f'') = Inr (initialState ''f'')"
    using g
  proof (rule parseLine_unknown_stays)
    show "TrimSpace ?l \<noteq> ''[Desktop Entry]''" unfolding t by simp
    show "\<not> (HasPrefix (TrimSpace ?l) ''[Desktop Action '' \<and> HasSuffix (TrimSpace ?l) '']'')"
      unfolding t using HasPrefix_hd [of ?l "''[Desktop Action ''"] by auto
    show "TrimSpace ?l \<noteq> [] \<and> \<not> HasPrefix (TrimSpace ?l) ''#'' \<and>
            \<not> HasPrefix (TrimSpace ?l) ''['' \<longrightarrow> CHR ''='' \<in> set (TrimSpace ?l)"
      unfolding t by simp
  qed
  moreover have "parseLine ''f'' ''[Desktop Action run]'' (initialState ''f'')
      = Inl (ErrUnknownAction ''f'' ''run'')"
    by (simp add: eval_defs)
  ultimately have 1: "parse ''f'' [?l, ''[Desktop Action run]'', ''[Desktop Entry]'',
      ''Actions=run;''] = Inl (ErrUnknownAction ''f'' ''run'')"
    by (simp add: parse_def)
  have "scanLines
      (?l @ ''\<newline>[Desktop Action run]\<newline>[Desktop Entry]\<newline>Actions=run;\<newline>'') = []"
    by (rule scanLines_too_long) (simp_all add: MaxScanTokenSize_def)
  then have 2: "parseReader ''f''
      (?l @ ''\<newline>[Desktop Action run]\<newline>[Desktop Entry]\<newline>Actions=run;\<newline>'')
        = Inr (emptyEntry ''f'')"
    by (simp only: parseReader_def parse_Nil)
  from 1 2 show ?thesis by simp
qed

text \<open>
  Claim C10. For every input stream, a line that after trimming is not blank, does not
  start with \<open>#\<close> or \<open>[\<close> and contains no \<open>=\<close> aborts the whole parse with the "badly
  formed" error, in any group and before any header. The code does not do this on every
  stream: on the stream that is one line of 70000 bytes \<open>x\<close>, the loop on that line fails
  with the "badly formed" error, but the scanner does not deliver the line and \<open>parse\<close>
  returns the empty entry and no error.
\<close>

theorem badly_formed_long_line:
  "parse ''f'' [replicate 70000 CHR ''x''] = Inl (ErrBadlyFormed ''f'') \<and>
   parseReader ''f'' (replicate 70000 CHR ''x'') = Inr (emptyEntry ''f'')"
proof -
  let ?l = "replicate 70000 CHR ''x''"
  have t: "TrimSpace ?l = ?l"
    by (rule TrimSpace_unchanged) (simp_all add: x_not_space)
  have a: "TrimSpace ?l \<noteq> []" "\<not> HasPrefix (TrimSpace ?l) ''#''"
    "\<not> HasPrefix (TrimSpace ?l) ''[''" and b: "CHR ''='' \<notin> set (TrimSpace ?l)"
    unfolding t using HasPrefix_hd [of ?l "''#''"] HasPrefix_hd [of ?l "''[''"] by auto
  have p: "parse ''f'' [] = Inr (emptyEntry ''f'')" by (rule parse_Nil)
  from badly_formed_line [OF a, of "''f''"] b p
  have "parse ''f'' ([] @ ?l # []) = Inl (ErrBadlyFormed ''f'')" by blast
  then have 1: "parse ''f'' [?l] = Inl (ErrBadlyFormed ''f'')" by simp
  have "scanLines (?l @ []) = []"
    by (rule scanLines_too_long) (simp_all add: MaxScanTokenSize_def)
  then have 2: "parseReader ''f'' ?l = Inr (emptyEntry ''f'')"
    by (simp add: parseReader_def parse_Nil)
  from 1 2 show ?thesis ..
qed

end
